theory Spec2Isabelle
  imports Complex_Main "HOL-Library.AList" "HOL-Library.Sublist"
begin

section \<open>The world state of \<open>server.js\<close>\<close>

text \<open>
  The simulation engine is the class \<open>Game\<close> of \<open>src/server.js\<close> (the pooled-troop
  evolution of the engine).  Its state is the array \<open>this.cells\<close>, the object
  \<open>this.players\<close> (player id to player object) and the array \<open>this.bots\<close>, whose
  elements are the very objects stored in \<open>this.players\<close>.  Player objects are mutated
  in place and are shared between the two containers, so the model keeps them in an
  explicit store: \<open>heap\<close> maps an address to a player object, \<open>players\<close> maps an id to
  an address (an association list: \<open>Object.keys(...).length\<close> is its length) and
  \<open>bots\<close> is a list of addresses.  \<open>nextRef\<close> is the address of the next object to be
  created; it exists in the model only.

  JavaScript numbers: coordinates and troop counts are integers (\<open>int\<close>; a pool that is
  \<open>NaN\<close> appears in the last subsection of the definitions only); the fraction
  \<open>percent\<close> and the results of \<open>Math.random()\<close> are exact rationals (\<open>rat\<close>), so
  \<open>Math.floor(totalTroops * percent)\<close> is the exact floor (IEEE rounding of the product
  is not modelled).  A \<open>Set\<close> of cell indices is the list of its elements in insertion
  order, which is the order \<open>Array.from\<close> reads.

  Reading a property of \<open>undefined\<close> throws a \<open>TypeError\<close>.  \<open>parseRequestBody\<close> calls
  the handlers of \<open>/api/spawn\<close>, \<open>/api/attack\<close> and \<open>/api/expand\<close> inside its \<open>try\<close>
  block, so an exception from \<open>spawn\<close>, \<open>attack\<close> or \<open>expand\<close> is caught and answered with
  status 400, and the world keeps what the call had changed before it threw: these three
  return an \<open>outcome\<close>, whose exceptional case carries that world.  The timer that calls
  \<open>update\<close> and the \<open>close\<close> handler that calls \<open>removePlayer\<close> catch nothing: an
  exception there ends the process.
\<close>

type_synonym pid = string
type_synonym ref = nat

record cell =
  land :: bool
  owner :: "pid option"
  ctroops :: int
  port :: bool
  city :: bool

record player =
  pid :: pid
  name :: string
  color :: nat
  pcells :: "nat list"
  troops :: int

record game =
  cells :: "cell list"
  heap :: "ref \<Rightarrow> player option"
  nextRef :: ref
  players :: "(pid \<times> ref) list"
  bots :: "ref list"

datatype exn = TypeError

type_synonym 'a result = "exn + 'a"
type_synonym outcome = "exn \<times> game + bool \<times> game"

definition MAX_PLAYERS_PER_GAME :: nat where
  "MAX_PLAYERS_PER_GAME = 10"

text \<open>\<open>this.cells[idx]\<close>: \<open>undefined\<close> (here \<open>None\<close>) outside the array.\<close>

definition cellAt :: "cell list \<Rightarrow> int \<Rightarrow> cell option" where
  "cellAt cs idx = (if 0 \<le> idx \<and> idx < int (length cs) then Some (cs ! nat idx) else None)"

text \<open>\<open>!cell.owner\<close>: the owner is \<open>null\<close> or the empty string.\<close>

fun falsy :: "pid option \<Rightarrow> bool" where
  "falsy None = True"
| "falsy (Some s) = (s = [])"

text \<open>
  \<open>this.players[id]\<close> for the ids of the roster: the address of the object and the object
  itself.  (An id that names a member of \<open>Object.prototype\<close> finds that member when the
  roster has no such id; the last subsection of the definitions has this lookup in full.)
\<close>

definition playerAt :: "game \<Rightarrow> pid \<Rightarrow> (ref \<times> player) option" where
  "playerAt g i =
     (case map_of (players g) i of
        None \<Rightarrow> None
      | Some a \<Rightarrow> (case heap g a of None \<Rightarrow> None | Some p \<Rightarrow> Some (a, p)))"

text \<open>An assignment to fields of the object at address \<open>a\<close>, and to fields of a cell.\<close>

definition modObj :: "ref \<Rightarrow> (player \<Rightarrow> player) \<Rightarrow> game \<Rightarrow> game" where
  "modObj a f g = g\<lparr>heap := (heap g)(a := map_option f (heap g a))\<rparr>"

definition modCell :: "nat \<Rightarrow> (cell \<Rightarrow> cell) \<Rightarrow> game \<Rightarrow> game" where
  "modCell i f g = g\<lparr>cells := (cells g)[i := f (cells g ! i)]\<rparr>"

text \<open>\<open>Set.prototype.add\<close> and \<open>Set.prototype.delete\<close> on the insertion-ordered list.\<close>

definition setAdd :: "nat \<Rightarrow> nat list \<Rightarrow> nat list" where
  "setAdd i xs = (if i \<in> set xs then xs else xs @ [i])"

definition setDelete :: "nat \<Rightarrow> nat list \<Rightarrow> nat list" where
  "setDelete i xs = removeAll i xs"

subsection \<open>Construction, join and leave\<close>

text \<open>
  The land mask \<open>generated/land_mask.json\<close> is not part of the sources; it is a
  parameter, a matrix of numbers of which \<open>1\<close> means land.  (With an empty mask
  \<open>landMask[0].length\<close> throws when the module is loaded and no world exists.)
\<close>

definition GRID_W :: "int list list \<Rightarrow> nat" where
  "GRID_W landMask = length (landMask ! 0)"

definition GRID_H :: "int list list \<Rightarrow> nat" where
  "GRID_H landMask = length landMask"

definition newCell :: "int list list \<Rightarrow> nat \<Rightarrow> nat \<Rightarrow> cell" where
  "newCell landMask y x =
     \<lparr>land = (x < length (landMask ! y) \<and> landMask ! y ! x = 1), owner = None, ctroops = 0,
      port = False, city = False\<rparr>"

definition newGame :: "int list list \<Rightarrow> game" where
  "newGame landMask =
     \<lparr>cells = concat (map (\<lambda>y. map (\<lambda>x. newCell landMask y x) [0..<GRID_W landMask])
                [0..<GRID_H landMask]),
      heap = (\<lambda>a. None), nextRef = 0, players = [], bots = []\<rparr>"

definition addPlayer :: "game \<Rightarrow> pid \<Rightarrow> string \<Rightarrow> nat \<Rightarrow> bool \<times> game" where
  "addPlayer g i nm hue =
     (if length (players g) \<ge> MAX_PLAYERS_PER_GAME then (False, g)
      else (True,
        g\<lparr>heap := (heap g)(nextRef g \<mapsto> \<lparr>pid = i, name = nm, color = hue, pcells = [], troops = 0\<rparr>),
          players := AList.update i (nextRef g) (players g),
          nextRef := Suc (nextRef g)\<rparr>))"

definition freeCell :: "cell \<Rightarrow> cell" where
  "freeCell c = c\<lparr>owner := None, ctroops := 0, port := False, city := False\<rparr>"

fun freeCells :: "cell list \<Rightarrow> nat list \<Rightarrow> cell list result" where
  "freeCells cs [] = Inr cs"
| "freeCells cs (i # is) =
     (if i < length cs then freeCells (cs[i := freeCell (cs ! i)]) is else Inl TypeError)"

definition removePlayer :: "game \<Rightarrow> pid \<Rightarrow> game result" where
  "removePlayer g i =
     (case playerAt g i of
        None \<Rightarrow> Inr g
      | Some (a, p) \<Rightarrow>
          (case freeCells (cells g) (pcells p) of
             Inl e \<Rightarrow> Inl e
           | Inr cs \<Rightarrow> Inr (g\<lparr>cells := cs, players := AList.delete i (players g)\<rparr>)))"

subsection \<open>spawn and attack\<close>

definition claimCell :: "pid \<Rightarrow> cell \<Rightarrow> cell" where
  "claimCell i c = c\<lparr>owner := Some i, port := False, city := False\<rparr>"

definition spawn :: "nat \<Rightarrow> game \<Rightarrow> pid \<Rightarrow> int \<Rightarrow> int \<Rightarrow> outcome" where
  "spawn W g i x y =
     (let idx = y * int W + x in
      case cellAt (cells g) idx of
        None \<Rightarrow> Inl (TypeError, g)
      | Some c \<Rightarrow>
          if \<not> land c \<or> \<not> falsy (owner c) then Inr (False, g)
          else
            (let g1 = modCell (nat idx) (\<lambda>c. (claimCell i c)\<lparr>ctroops := 0\<rparr>) g in
             case playerAt g1 i of
               None \<Rightarrow> Inl (TypeError, g1)
             | Some (a, p) \<Rightarrow>
                 Inr (True,
                   modObj a (\<lambda>p. p\<lparr>troops := troops p + 10\<rparr>)
                     (modObj a (\<lambda>p. p\<lparr>pcells := setAdd (nat idx) (pcells p)\<rparr>) g1))))"

text \<open>
  The movement check of \<open>attack\<close> (lines 101 to 117): \<open>True\<close> when the function goes on
  to compute the troops to send.
\<close>

definition moveOk ::
  "nat \<Rightarrow> cell list \<Rightarrow> int \<Rightarrow> int \<Rightarrow> int \<Rightarrow> int \<Rightarrow> cell \<Rightarrow> cell option \<Rightarrow> bool" where
  "moveOk W cs srcX srcY dstX dstY srcCell dstCell =
     (let dx = dstX - srcX; dy = dstY - srcY; maxStep = max \<bar>dx\<bar> \<bar>dy\<bar> in
      if maxStep \<noteq> 1 then
        (if maxStep = 2 \<and> port srcCell then
           (let midX = srcX + sgn dx; midY = srcY + sgn dy;
                midIdx = midY * int W + midX in
            case cellAt cs midIdx of
              None \<Rightarrow> False
            | Some midCell \<Rightarrow>
                \<not> land midCell \<and> (case dstCell of None \<Rightarrow> False | Some dc \<Rightarrow> land dc))
         else False)
      else True)"

text \<open>The resolution of an attack once \<open>toSend\<close> troops have been deducted (lines 124 to 153).\<close>

definition resolve :: "game \<Rightarrow> pid \<Rightarrow> ref \<Rightarrow> int \<Rightarrow> int \<Rightarrow> outcome" where
  "resolve g i a dstIdx toSend =
     (case cellAt (cells g) dstIdx of
        None \<Rightarrow> Inl (TypeError, g)
      | Some dc \<Rightarrow>
          if falsy (owner dc) then
            Inr (True,
              modObj a (\<lambda>p. p\<lparr>pcells := setAdd (nat dstIdx) (pcells p)\<rparr>)
                (modCell (nat dstIdx) (claimCell i) g))
          else if owner dc = Some i then Inr (False, g)
          else
            (case owner dc of
               None \<Rightarrow> Inr (False, g)
             | Some defenderId \<Rightarrow>
                 (case playerAt g defenderId of
                    None \<Rightarrow> Inr (False, g)
                  | Some (da, defender) \<Rightarrow>
                      if toSend > troops defender then
                        Inr (True,
                          modObj a (\<lambda>p. p\<lparr>pcells := setAdd (nat dstIdx) (pcells p)\<rparr>)
                            (modCell (nat dstIdx) (claimCell i)
                              (modObj da (\<lambda>p. p\<lparr>pcells := setDelete (nat dstIdx) (pcells p)\<rparr>)
                                (modObj da (\<lambda>p. p\<lparr>troops := 0\<rparr>) g))))
                      else
                        Inr (True, modObj da (\<lambda>p. p\<lparr>troops := troops p - toSend\<rparr>) g))))"

definition attack ::
  "nat \<Rightarrow> game \<Rightarrow> pid \<Rightarrow> int \<Rightarrow> int \<Rightarrow> int \<Rightarrow> int \<Rightarrow> rat \<Rightarrow> outcome" where
  "attack W g i srcX srcY dstX dstY percent =
     (let srcIdx = srcY * int W + srcX;
          dstIdx = dstY * int W + dstX;
          dstCell = cellAt (cells g) dstIdx in
      case playerAt g i of
        None \<Rightarrow> Inr (False, g)
      | Some (a, pl) \<Rightarrow>
          (case cellAt (cells g) srcIdx of
             None \<Rightarrow> Inr (False, g)
           | Some srcCell \<Rightarrow>
               if owner srcCell \<noteq> Some i then Inr (False, g)
               else if \<not> moveOk W (cells g) srcX srcY dstX dstY srcCell dstCell then Inr (False, g)
               else
                 (let totalTroops = troops pl;
                      toSend = \<lfloor>of_int totalTroops * percent\<rfloor> in
                  if toSend < 1 then Inr (False, g)
                  else resolve (modObj a (\<lambda>p. p\<lparr>troops := troops p - toSend\<rparr>) g)
                         i a dstIdx toSend)))"

subsection \<open>expand, buildPort and buildCity\<close>

text \<open>
  The double loop \<open>for j = -1..1, for i = -1..1\<close> that skips \<open>(0,0)\<close> and every
  coordinate outside the grid; \<open>expand\<close>, \<open>buildPort\<close> and \<open>botAct\<close> all contain it.
\<close>

definition neighbours :: "nat \<Rightarrow> nat \<Rightarrow> int \<Rightarrow> int \<Rightarrow> (int \<times> int) list" where
  "neighbours W H x y =
     concat (map (\<lambda>j. concat (map (\<lambda>i.
        if i = 0 \<and> j = 0 then []
        else if x + i < 0 \<or> y + j < 0 \<or> x + i \<ge> int W \<or> y + j \<ge> int H then []
        else [(x + i, y + j)]) [-1, 0, 1])) [-1, 0, 1])"

definition dirs :: "(int \<times> int) list" where
  "dirs = [(-1, 0), (1, 0), (0, -1), (0, 1), (-1, -1), (-1, 1), (1, -1), (1, 1)]"

text \<open>\<open>!ncell.owner || ncell.owner !== id\<close>\<close>

definition notOwn :: "pid \<Rightarrow> cell \<Rightarrow> bool" where
  "notOwn i c = (falsy (owner c) \<or> owner c \<noteq> Some i)"

definition adjacentTargets :: "nat \<Rightarrow> nat \<Rightarrow> cell list \<Rightarrow> pid \<Rightarrow> int \<Rightarrow> int \<Rightarrow> (int \<times> int) list" where
  "adjacentTargets W H cs i x y =
     filter (\<lambda>(nx, ny). case cellAt cs (ny * int W + nx) of None \<Rightarrow> False | Some ncell \<Rightarrow> notOwn i ncell)
       (neighbours W H x y)"

definition jumpTargets :: "nat \<Rightarrow> nat \<Rightarrow> cell list \<Rightarrow> pid \<Rightarrow> int \<Rightarrow> int \<Rightarrow> (int \<times> int) list" where
  "jumpTargets W H cs i x y =
     concat (map (\<lambda>(dx, dy).
        let midX = x + dx; midY = y + dy; destX = x + dx * 2; destY = y + dy * 2 in
        if destX < 0 \<or> destY < 0 \<or> destX \<ge> int W \<or> destY \<ge> int H then []
        else
          (case cellAt cs (midY * int W + midX) of
             None \<Rightarrow> []
           | Some midCell \<Rightarrow>
               (case cellAt cs (destY * int W + destX) of
                  None \<Rightarrow> []
                | Some destCell \<Rightarrow>
                    if \<not> land midCell \<and> land destCell \<and> notOwn i destCell then [(destX, destY)]
                    else []))) dirs)"

definition targetsOf :: "nat \<Rightarrow> nat \<Rightarrow> cell list \<Rightarrow> pid \<Rightarrow> int \<Rightarrow> int \<Rightarrow> cell \<Rightarrow> (int \<times> int) list" where
  "targetsOf W H cs i x y srcCell =
     adjacentTargets W H cs i x y @ (if port srcCell then jumpTargets W H cs i x y else [])"

text \<open>The loop \<open>for (const t of targets)\<close> of \<open>expand\<close>, with the flag \<open>any\<close>.\<close>

fun attackAll ::
  "nat \<Rightarrow> pid \<Rightarrow> int \<Rightarrow> int \<Rightarrow> rat \<Rightarrow> (int \<times> int) list \<Rightarrow> bool \<Rightarrow> game \<Rightarrow> outcome" where
  "attackAll W i x y per [] any g = Inr (any, g)"
| "attackAll W i x y per (t # ts) any g =
     (case attack W g i x y (fst t) (snd t) per of
        Inl e \<Rightarrow> Inl e
      | Inr (ok, g') \<Rightarrow> attackAll W i x y per ts (any \<or> ok) g')"

definition expand :: "nat \<Rightarrow> nat \<Rightarrow> game \<Rightarrow> pid \<Rightarrow> int \<Rightarrow> int \<Rightarrow> rat \<Rightarrow> outcome" where
  "expand W H g i x y percent =
     (let srcIdx = y * int W + x in
      case cellAt (cells g) srcIdx of
        None \<Rightarrow> Inr (False, g)
      | Some srcCell \<Rightarrow>
          if owner srcCell \<noteq> Some i then Inr (False, g)
          else
            (case playerAt g i of
               None \<Rightarrow> Inr (False, g)
             | Some (a, pl) \<Rightarrow>
                 (let targets = targetsOf W H (cells g) i x y srcCell in
                  if length targets = 0 then Inr (False, g)
                  else
                    (let per = percent / of_nat (length targets) in
                     attackAll W i x y per targets False g))))"

definition adjacentWater :: "nat \<Rightarrow> nat \<Rightarrow> cell list \<Rightarrow> int \<Rightarrow> int \<Rightarrow> bool" where
  "adjacentWater W H cs x y =
     list_ex (\<lambda>(nx, ny). case cellAt cs (ny * int W + nx) of None \<Rightarrow> False | Some ncell \<Rightarrow> \<not> land ncell)
       (neighbours W H x y)"

definition buildPort :: "nat \<Rightarrow> nat \<Rightarrow> game \<Rightarrow> pid \<Rightarrow> int \<Rightarrow> int \<Rightarrow> bool \<times> game" where
  "buildPort W H g i x y =
     (let idx = y * int W + x in
      case cellAt (cells g) idx of
        None \<Rightarrow> (False, g)
      | Some c \<Rightarrow>
          if owner c \<noteq> Some i \<or> \<not> land c \<or> port c then (False, g)
          else if \<not> adjacentWater W H (cells g) x y then (False, g)
          else
            (case playerAt g i of
               None \<Rightarrow> (False, g)
             | Some (a, pl) \<Rightarrow>
                 if troops pl < 5 then (False, g)
                 else (True,
                   modCell (nat idx) (\<lambda>c. c\<lparr>port := True\<rparr>)
                     (modObj a (\<lambda>p. p\<lparr>troops := troops p - 5\<rparr>) g))))"

definition buildCity :: "nat \<Rightarrow> game \<Rightarrow> pid \<Rightarrow> int \<Rightarrow> int \<Rightarrow> bool \<times> game" where
  "buildCity W g i x y =
     (let idx = y * int W + x in
      case cellAt (cells g) idx of
        None \<Rightarrow> (False, g)
      | Some c \<Rightarrow>
          if owner c \<noteq> Some i \<or> \<not> land c \<or> city c then (False, g)
          else
            (case playerAt g i of
               None \<Rightarrow> (False, g)
             | Some (a, pl) \<Rightarrow>
                 if troops pl < 10 then (False, g)
                 else (True,
                   modCell (nat idx) (\<lambda>c. c\<lparr>city := True\<rparr>)
                     (modObj a (\<lambda>p. p\<lparr>troops := troops p - 10\<rparr>) g))))"

subsection \<open>The tick: growth and bots\<close>

text \<open>The loop that counts the cities of a territory; a stale index would throw.\<close>

fun countCities :: "cell list \<Rightarrow> nat list \<Rightarrow> int \<Rightarrow> int result" where
  "countCities cs [] n = Inr n"
| "countCities cs (k # ks) n =
     (if k < length cs then countCities cs ks (if city (cs ! k) then n + 1 else n)
      else Inl TypeError)"

definition maxTroops :: "int \<Rightarrow> int \<Rightarrow> int" where
  "maxTroops territorySize cityCount = 5 + territorySize div 2 + cityCount * 5"

definition growth :: "int \<Rightarrow> int" where
  "growth t = max 1 (t div 3)"

text \<open>The new value of \<open>player.troops\<close> for a given capacity.\<close>

definition grown :: "int \<Rightarrow> int \<Rightarrow> int" where
  "grown cap t = min (t + growth t) cap"

definition growPlayer :: "cell list \<Rightarrow> player \<Rightarrow> player result" where
  "growPlayer cs p =
     (let territorySize = int (length (pcells p)) in
      case countCities cs (pcells p) 0 of
        Inl e \<Rightarrow> Inl e
      | Inr cityCount \<Rightarrow> Inr (p\<lparr>troops := grown (maxTroops territorySize cityCount) (troops p)\<rparr>))"

text \<open>
  The loop \<open>for (const pid in this.players)\<close>.  Each round reads the cells and writes one
  player object, so the order in which the ids are enumerated plays no role.
\<close>

fun growAll :: "(pid \<times> ref) list \<Rightarrow> game \<Rightarrow> game result" where
  "growAll [] g = Inr g"
| "growAll (e # es) g =
     (case heap g (snd e) of
        None \<Rightarrow> Inl TypeError
      | Some p \<Rightarrow>
          (case growPlayer (cells g) p of
             Inl x \<Rightarrow> Inl x
           | Inr p' \<Rightarrow> growAll es (g\<lparr>heap := (heap g)(snd e \<mapsto> p')\<rparr>)))"

text \<open>
  \<open>botAct\<close> reads \<open>Math.random()\<close>; its results are the stream \<open>r\<close>, each in \<open>[0, 1)\<close>.
  Try \<open>t\<close> of the spawn loop reads \<open>r (2 * t)\<close> and \<open>r (2 * t + 1)\<close>; the attacking
  branch reads \<open>r 0\<close> for the source and \<open>r 1\<close> for the target.
\<close>

fun botSpawn :: "nat \<Rightarrow> nat \<Rightarrow> ref \<Rightarrow> (nat \<Rightarrow> rat) \<Rightarrow> nat list \<Rightarrow> game \<Rightarrow> game result" where
  "botSpawn W H a r [] g = Inr g"
| "botSpawn W H a r (t # ts) g =
     (let x = \<lfloor>r (2 * t) * of_nat W\<rfloor>;
          y = \<lfloor>r (2 * t + 1) * of_nat H\<rfloor>;
          idx = y * int W + x in
      case cellAt (cells g) idx of
        None \<Rightarrow> Inl TypeError
      | Some c \<Rightarrow>
          if land c \<and> falsy (owner c) then
            (case heap g a of
               None \<Rightarrow> Inl TypeError
             | Some b \<Rightarrow>
                 Inr (modObj a (\<lambda>p. p\<lparr>troops := 10\<rparr>)
                       (modObj a (\<lambda>p. p\<lparr>pcells := setAdd (nat idx) (pcells p)\<rparr>)
                         (modCell (nat idx) (claimCell (pid b)) g))))
          else botSpawn W H a r ts g)"

definition botAct :: "nat \<Rightarrow> nat \<Rightarrow> ref \<Rightarrow> (nat \<Rightarrow> rat) \<Rightarrow> game \<Rightarrow> game result" where
  "botAct W H a r g =
     (case heap g a of
        None \<Rightarrow> Inl TypeError
      | Some b \<Rightarrow>
          if length (pcells b) = 0 then botSpawn W H a r [0..<50] g
          else
            (let ownCells = pcells b;
                 k = nat \<lfloor>r 0 * of_nat (length ownCells)\<rfloor> in
             if r 0 < 0 \<or> k \<ge> length ownCells then Inl TypeError
             else
               (let srcIdx = ownCells ! k in
                case cellAt (cells g) (int srcIdx) of
                  None \<Rightarrow> Inl TypeError
                | Some srcCell \<Rightarrow>
                    (let x = int (srcIdx mod W);
                         y = int (srcIdx div W);
                         possibleTargets = targetsOf W H (cells g) (pid b) x y srcCell in
                     if length possibleTargets = 0 then Inr g
                     else
                       (let m = nat \<lfloor>r 1 * of_nat (length possibleTargets)\<rfloor>;
                            toSend = troops b div 2 in
                        if toSend < 1 then Inr g
                        else if r 1 < 0 \<or> m \<ge> length possibleTargets then Inl TypeError
                        else
                          (let target = possibleTargets ! m;
                               percent = of_int toSend / of_int (troops b) in
                           case attack W g (pid b) x y (fst target) (snd target) percent of
                             Inl (e, g') \<Rightarrow> Inl e
                           | Inr (ok, g') \<Rightarrow> Inr g'))))))"

text \<open>The loop \<open>for (const bot of this.bots)\<close>; bot number \<open>k\<close> reads the stream \<open>r k\<close>.\<close>

fun botsLoop :: "nat \<Rightarrow> nat \<Rightarrow> (nat \<Rightarrow> nat \<Rightarrow> rat) \<Rightarrow> nat \<Rightarrow> ref list \<Rightarrow> game \<Rightarrow> game result" where
  "botsLoop W H r k [] g = Inr g"
| "botsLoop W H r k (b # bs) g =
     (case botAct W H b (r k) g of
        Inl e \<Rightarrow> Inl e
      | Inr g' \<Rightarrow> botsLoop W H r (Suc k) bs g')"

definition update :: "nat \<Rightarrow> nat \<Rightarrow> (nat \<Rightarrow> nat \<Rightarrow> rat) \<Rightarrow> game \<Rightarrow> game result" where
  "update W H r g =
     (case growAll (players g) g of
        Inl e \<Rightarrow> Inl e
      | Inr g1 \<Rightarrow> botsLoop W H r 0 (bots g1) g1)"

text \<open>
  Iteration.  \<open>growSteps n\<close> runs the growth loop of \<open>update\<close> \<open>n\<close> times with nothing in
  between; \<open>ticks n\<close> runs \<open>update\<close> \<open>n\<close> times, tick \<open>k\<close> drawing the random numbers
  \<open>rs k\<close>.  An exception of an earlier round is the result.
\<close>

fun growSteps :: "nat \<Rightarrow> game \<Rightarrow> game result" where
  "growSteps 0 g = Inr g"
| "growSteps (Suc n) g =
     (case growSteps n g of Inl e \<Rightarrow> Inl e | Inr g' \<Rightarrow> growAll (players g') g')"

fun ticks :: "nat \<Rightarrow> nat \<Rightarrow> (nat \<Rightarrow> nat \<Rightarrow> nat \<Rightarrow> rat) \<Rightarrow> nat \<Rightarrow> game \<Rightarrow> game result" where
  "ticks W H rs 0 g = Inr g"
| "ticks W H rs (Suc n) g =
     (case ticks W H rs n g of Inl e \<Rightarrow> Inl e | Inr g' \<Rightarrow> update W H (rs n) g')"

subsection \<open>The server around the engine\<close>

text \<open>
  \<open>ensureBots\<close> (lines 368 to 376) fills the roster with bots; draw \<open>k\<close> of its random
  source gives the suffix of the bot's id and the hue of its colour.  Every round adds
  one element to \<open>game.bots\<close>, so the loop ends.
\<close>

definition addBot :: "game \<Rightarrow> string \<times> nat \<Rightarrow> game" where
  "addBot g sh =
     (let botId = ''bot-'' @ fst sh; a = nextRef g in
      g\<lparr>heap := (heap g)(a \<mapsto> \<lparr>pid = botId, name = ''Bot'', color = snd sh, pcells = [], troops = 0\<rparr>),
        nextRef := Suc a,
        players := AList.update botId a (players g),
        bots := bots g @ [a]\<rparr>)"

function ensureBots :: "(nat \<Rightarrow> string \<times> nat) \<Rightarrow> nat \<Rightarrow> game \<Rightarrow> game" where
  "ensureBots r k g =
     (if length (bots g) + length (players g) < MAX_PLAYERS_PER_GAME
      then ensureBots r (Suc k) (addBot g (r k)) else g)"
  by pat_completeness auto
termination
  by (relation "measure (\<lambda>(r, k, g). MAX_PLAYERS_PER_GAME - length (bots g))")
     (auto simp: addBot_def Let_def)

declare ensureBots.simps [simp del]

text \<open>
  The handler of \<open>/api/join\<close> (the id \<open>i\<close> is the random string it draws) and the
  \<open>close\<close> handler of \<open>/events\<close>, which removes the player unless the id is empty or
  starts with \<open>bot-\<close>.
\<close>

definition join :: "game \<Rightarrow> pid \<Rightarrow> string \<Rightarrow> nat \<Rightarrow> (nat \<Rightarrow> string \<times> nat) \<Rightarrow> bool \<times> game" where
  "join g i nm hue r =
     (case addPlayer g i (if nm = [] then ''Anonyme'' else nm) hue of
        (ok, g') \<Rightarrow> if \<not> ok then (False, g') else (True, ensureBots r 0 g'))"

definition disconnect :: "game \<Rightarrow> pid \<Rightarrow> game result" where
  "disconnect g playerId =
     (if playerId \<noteq> [] \<and> \<not> prefix ''bot-'' playerId then removePlayer g playerId else Inr g)"

text \<open>
  What a request handler makes of an outcome: the flag \<open>ok\<close> of the response (\<open>false\<close>
  with status 400 when the call threw) and the world the server goes on with.
\<close>

definition answer :: "outcome \<Rightarrow> bool \<times> game" where
  "answer r = (case r of Inl (e, g) \<Rightarrow> (False, g) | Inr x \<Rightarrow> x)"

definition finalState :: "outcome \<Rightarrow> game" where
  "finalState r = snd (answer r)"

text \<open>One request or one tick, with the random draws it consumes.\<close>

datatype command =
    Join pid string nat "nat \<Rightarrow> string \<times> nat"
  | Leave pid
  | Spawn pid int int
  | Attack pid int int int int rat
  | Expand pid int int rat
  | BuildPort pid int int
  | BuildCity pid int int
  | Tick "nat \<Rightarrow> nat \<Rightarrow> rat"

text \<open>The effect of a command; \<open>None\<close> when an uncaught exception ends the process.\<close>

fun exec :: "nat \<Rightarrow> nat \<Rightarrow> game \<Rightarrow> command \<Rightarrow> (bool \<times> game) option" where
  "exec W H g (Join i nm hue r) = Some (join g i nm hue r)"
| "exec W H g (Leave i) =
     (case disconnect g i of Inl e \<Rightarrow> None | Inr g' \<Rightarrow> Some (True, g'))"
| "exec W H g (Spawn i x y) = Some (answer (spawn W g i x y))"
| "exec W H g (Attack i srcX srcY dstX dstY percent) =
     Some (answer (attack W g i srcX srcY dstX dstY percent))"
| "exec W H g (Expand i x y percent) = Some (answer (expand W H g i x y percent))"
| "exec W H g (BuildPort i x y) = Some (buildPort W H g i x y)"
| "exec W H g (BuildCity i x y) = Some (buildCity W g i x y)"
| "exec W H g (Tick r) =
     (case update W H r g of Inl e \<Rightarrow> None | Inr g' \<Rightarrow> Some (True, g'))"

text \<open>
  A run of the server from a state: the commands are executed in order as long as each is
  admitted by \<open>adm\<close> in the state it meets and the process lives.
\<close>

fun run :: "(game \<Rightarrow> command \<Rightarrow> bool) \<Rightarrow> nat \<Rightarrow> nat \<Rightarrow> game \<Rightarrow> command list \<Rightarrow> game option" where
  "run adm W H g [] = Some g"
| "run adm W H g (c # cs) =
     (if adm g c then
        (case exec W H g c of None \<Rightarrow> None | Some (ok, g') \<Rightarrow> run adm W H g' cs)
      else None)"

text \<open>
  The ids that \<open>join\<close> and \<open>ensureBots\<close> draw are random strings; a command is admitted
  when the drawn ids are new.  An id is new when it is not in the roster and owns no
  cell.  The player's id is new, not empty and does not start with \<open>bot-\<close> (it is made of
  digits and lower-case letters), and the bot ids of the up to \<open>MAX_PLAYERS_PER_GAME\<close>
  rounds are new and differ from each other.
\<close>

definition newId :: "game \<Rightarrow> pid \<Rightarrow> bool" where
  "newId g i = (i \<notin> fst ` set (players g) \<and> list_all (\<lambda>c. owner c \<noteq> Some i) (cells g))"

fun freshIds :: "game \<Rightarrow> command \<Rightarrow> bool" where
  "freshIds g (Join i nm hue r) =
     (i \<noteq> [] \<and> \<not> prefix ''bot-'' i \<and> newId g i
      \<and> distinct (map (\<lambda>k. fst (r k)) [0..<MAX_PLAYERS_PER_GAME])
      \<and> list_all (\<lambda>k. newId g (''bot-'' @ fst (r k))) [0..<MAX_PLAYERS_PER_GAME])"
| "freshIds g c = True"

subsection \<open>Invariants\<close>

text \<open>The indices of the cells whose owner is \<open>i\<close>.\<close>

definition owned :: "cell list \<Rightarrow> pid \<Rightarrow> nat set" where
  "owned cs i = {k. k < length cs \<and> owner (cs ! k) = Some i}"

text \<open>
  For every player of the roster the territory set holds exactly the indices of the
  cells it owns.
\<close>

definition territoryOk :: "game \<Rightarrow> bool" where
  "territoryOk g = (\<forall>i a p. playerAt g i = Some (a, p) \<longrightarrow> set (pcells p) = owned (cells g) i)"

text \<open>
  The roster is well formed: ids and objects are pairwise distinct, no id is empty, and
  the object filed under an id carries that id.
\<close>

definition storeOk :: "game \<Rightarrow> bool" where
  "storeOk g =
     (distinct (map fst (players g)) \<and> distinct (map snd (players g)) \<and>
      (\<forall>e\<in>set (players g). fst e \<noteq> [] \<and> snd e < nextRef g \<and>
          (\<exists>p. heap g (snd e) = Some p \<and> pid p = fst e)))"

text \<open>Every bot is in the roster, under an id that starts with \<open>bot-\<close>.\<close>

definition botsOk :: "game \<Rightarrow> bool" where
  "botsOk g = (\<forall>a\<in>set (bots g). \<exists>i. (i, a) \<in> set (players g) \<and> prefix ''bot-'' i)"

definition worldInv :: "game \<Rightarrow> bool" where
  "worldInv g = (storeOk g \<and> territoryOk g \<and> botsOk g)"

subsection \<open>Observations and example worlds\<close>

text \<open>A player's troop pool and territory, read through \<open>this.players[id]\<close>.\<close>

definition troopPool :: "game \<Rightarrow> pid \<Rightarrow> int option" where
  "troopPool g i = map_option (\<lambda>(a, p). troops p) (playerAt g i)"

definition territory :: "game \<Rightarrow> pid \<Rightarrow> nat list option" where
  "territory g i = map_option (\<lambda>(a, p). pcells p) (playerAt g i)"

text \<open>
  A player's capacity: \<open>5 + floor(territorySize / 2) + 5 * cityCount\<close> for the size of its
  territory set and the number of its cells that carry a city.
\<close>

definition capacity :: "game \<Rightarrow> pid \<Rightarrow> int option" where
  "capacity g i =
     map_option (\<lambda>(a, p). 5 + int (length (pcells p)) div 2
                    + 5 * int (length (filter (\<lambda>k. city (cells g ! k)) (pcells p))))
       (playerAt g i)"

text \<open>The player object after one growth step, with the formula of \<open>update\<close> written out.\<close>

definition grownPlayer :: "cell list \<Rightarrow> player \<Rightarrow> player" where
  "grownPlayer cs p =
     p\<lparr>troops := min (troops p + max 1 (troops p div 3))
          (5 + int (length (pcells p)) div 2
             + 5 * int (length (filter (\<lambda>k. city (cs ! k)) (pcells p))))\<rparr>"

text \<open>Small worlds for the concrete evaluations below; players sit at addresses \<open>0, 1, ...\<close>.\<close>

definition mkCell :: "bool \<Rightarrow> pid option \<Rightarrow> bool \<Rightarrow> cell" where
  "mkCell l ow pt = \<lparr>land = l, owner = ow, ctroops = 0, port = pt, city = False\<rparr>"

definition mkPlayer :: "pid \<Rightarrow> nat list \<Rightarrow> int \<Rightarrow> player" where
  "mkPlayer i cs t = \<lparr>pid = i, name = i, color = 0, pcells = cs, troops = t\<rparr>"

definition mkGame :: "cell list \<Rightarrow> player list \<Rightarrow> game" where
  "mkGame cs ps =
     \<lparr>cells = cs, heap = (\<lambda>a. if a < length ps then Some (ps ! a) else None),
      nextRef = length ps, players = zip (map pid ps) [0..<length ps], bots = []\<rparr>"

text \<open>A 2 by 1 land strip on whose two cells player \<open>a\<close> has spawned: pool 20.\<close>

definition gOwn :: game where
  "gOwn = mkGame [mkCell True (Some ''a'') False, mkCell True (Some ''a'') False]
            [mkPlayer ''a'' [0, 1] 20]"

text \<open>
  A 3 by 1 strip: \<open>a\<close> (pool 10) beside \<open>b\<close>, whose cell has a port on the water cell
  \<open>(2,0)\<close> and whose pool is \<open>t\<close>.
\<close>

definition gDuel :: "int \<Rightarrow> game" where
  "gDuel t = mkGame [mkCell True (Some ''a'') False, mkCell True (Some ''b'') True,
                     mkCell False None False]
               [mkPlayer ''a'' [0] 10, mkPlayer ''b'' [1] t]"

text \<open>A 1 by 1 world with a player that has joined but not spawned.\<close>

definition gIdle :: game where
  "gIdle = mkGame [mkCell True None False] [mkPlayer ''a'' [] 0]"

text \<open>
  A 3 by 2 world: \<open>a\<close> has spawned at \<open>(0,0)\<close> and built a port there (pool 5), the cell
  \<open>(1,1)\<close> is water, all other cells are unowned land.
\<close>

definition gKnight :: game where
  "gKnight = mkGame
     [mkCell True (Some ''a'') True, mkCell True None False, mkCell True None False,
      mkCell True None False, mkCell False None False, mkCell True None False]
     [mkPlayer ''a'' [0] 5]"

text \<open>A 3 by 1 land strip: \<open>a\<close> owns the middle cell, pool 10.\<close>

definition gRow :: game where
  "gRow = mkGame [mkCell True None False, mkCell True (Some ''a'') False, mkCell True None False]
            [mkPlayer ''a'' [1] 10]"

text \<open>A 2 by 2 unowned land square and a player without territory.\<close>

definition gSq :: game where
  "gSq = mkGame [mkCell True None False, mkCell True None False,
                 mkCell True None False, mkCell True None False]
           [mkPlayer ''a'' [] 0]"

text \<open>A 2 by 1 strip: \<open>a\<close> owns the land cell, the other cell is unowned water.\<close>

definition gShore :: game where
  "gShore = mkGame [mkCell True (Some ''a'') False, mkCell False None False]
              [mkPlayer ''a'' [0] 10]"

text \<open>
  A 3 by 1 land strip that \<open>a\<close> owns, with a city on \<open>(2,0)\<close> and a pool of 6 (three spawns
  give 30, the city costs 10, and an attack with 7/10 of the pool on the own cell \<open>(1,0)\<close>
  burns 14).
\<close>

definition gTown :: game where
  "gTown = mkGame [mkCell True (Some ''a'') False, mkCell True (Some ''a'') False,
                   (mkCell True (Some ''a'') False)\<lparr>city := True\<rparr>]
             [mkPlayer ''a'' [0, 1, 2] 6]"

text \<open>
  A run on a 4 by 2 grid whose cell \<open>(3,0)\<close> is water.  \<open>botDraw\<close> lists the random
  suffixes and hues of the bots; with \<open>demoRandom\<close> the first four bots sample or pick
  column \<open>k\<close> of row 1 and the middle target, the fifth the cell \<open>(0,0)\<close> and the first
  target.
\<close>

definition demoMask :: "int list list" where
  "demoMask = [[1, 1, 1, 0], [1, 1, 1, 1]]"

definition botDraw :: "nat \<Rightarrow> string \<times> nat" where
  "botDraw k = ([''k3x9a'', ''0fz1q'', ''m2m2m'', ''zz81c'', ''a0b1c'',
                 ''q9w8e'', ''7h7h7'', ''p0o9i'', ''u1y2t'', ''r4e3w''] ! k, 30 * k)"

definition demoRandom :: "nat \<Rightarrow> nat \<Rightarrow> rat" where
  "demoRandom k n =
     (if n = 0 then (if k = 4 then 0 else of_nat k / 4)
      else (if k = 4 then 0 else 1 / 2))"

definition demoRun :: "command list" where
  "demoRun = [Join ''p1'' ''Ann'' 200 botDraw, Spawn ''p1'' 2 0, BuildPort ''p1'' 2 0,
              Attack ''p1'' 2 0 1 0 (1 / 2), Tick demoRandom, Expand ''p1'' 1 0 1,
              BuildCity ''p1'' 1 0, Tick demoRandom, Leave ''p1'']"

subsection \<open>Ids that name a member of \<open>Object.prototype\<close>\<close>

text \<open>
  \<open>this.players\<close> is created as the literal \<open>{}\<close>, so \<open>this.players[id]\<close> finds more than
  the roster: under \<open>constructor\<close> the function \<open>Object\<close>, under \<open>__proto__\<close> the object
  \<open>Object.prototype\<close>, under \<open>toString\<close>, \<open>valueOf\<close> and the other names of
  \<open>prototypeNames\<close> a function.  Each of these inherited members is an object, hence
  truthy, and has neither a \<open>cells\<close> nor a \<open>troops\<close> property.  \<open>playerAt\<close> above is the
  lookup for every other id.  With an inherited member in the place of the player,
  \<open>Math.floor(player.troops * percent)\<close> is \<open>NaN\<close>, and a pool can become \<open>NaN\<close>, which
  \<open>int\<close> does not hold.  This subsection therefore embeds \<open>addPlayer\<close>, \<open>spawn\<close> and
  \<open>attack\<close> once more, with the lookup in full and with pools that are an integer or
  \<open>NaN\<close>.  The three methods do not touch \<open>this.bots\<close>, so the roster is kept by id;
  \<open>addPlayer\<close> receives the ids the server draws, strings of digits and lower-case
  letters.

  Arithmetic with \<open>NaN\<close> or \<open>undefined\<close> gives \<open>NaN\<close>, and every comparison with one of
  them is false.  The \<open>troops\<close> of an inherited member reads \<open>undefined\<close>, and \<open>NaN\<close> once
  \<open>attack\<close> has written to it; both behave alike in \<open>attack\<close>, so the member needs no
  state.
\<close>

datatype number = Num int | NaN

text \<open>\<open>Math.floor(a * q)\<close>, \<open>a + b\<close>, \<open>a - b\<close> and \<open>a < b\<close>.\<close>

fun floorTimes :: "number \<Rightarrow> rat \<Rightarrow> number" where
  "floorTimes (Num a) q = Num \<lfloor>of_int a * q\<rfloor>"
| "floorTimes NaN q = NaN"

fun plusN :: "number \<Rightarrow> number \<Rightarrow> number" where
  "plusN (Num a) (Num b) = Num (a + b)"
| "plusN a b = NaN"

fun minusN :: "number \<Rightarrow> number \<Rightarrow> number" where
  "minusN (Num a) (Num b) = Num (a - b)"
| "minusN a b = NaN"

fun lessN :: "number \<Rightarrow> number \<Rightarrow> bool" where
  "lessN (Num a) (Num b) = (a < b)"
| "lessN a b = False"

record jsPlayer =
  jsId :: pid
  jsName :: string
  jsColor :: nat
  jsCells :: "nat list"
  jsTroops :: number

record jsGame =
  jsGrid :: "cell list"
  jsRoster :: "(pid \<times> jsPlayer) list"

type_synonym jsOutcome = "exn \<times> jsGame + bool \<times> jsGame"

definition prototypeNames :: "pid list" where
  "prototypeNames =
     [''constructor'', ''__proto__'', ''__defineGetter__'', ''__defineSetter__'',
      ''__lookupGetter__'', ''__lookupSetter__'', ''hasOwnProperty'', ''isPrototypeOf'',
      ''propertyIsEnumerable'', ''toLocaleString'', ''toString'', ''valueOf'']"

text \<open>\<open>this.players[id]\<close>: an own property first, then the prototype.\<close>

datatype slot = Undefined | Inherited | Own jsPlayer

definition playersGet :: "jsGame \<Rightarrow> pid \<Rightarrow> slot" where
  "playersGet g i =
     (case map_of (jsRoster g) i of
        Some p \<Rightarrow> Own p
      | None \<Rightarrow> if i \<in> set prototypeNames then Inherited else Undefined)"

text \<open>\<open>player.troops\<close> as a number.\<close>

fun troopsOf :: "slot \<Rightarrow> number" where
  "troopsOf (Own p) = jsTroops p"
| "troopsOf s = NaN"

text \<open>
  An assignment to fields of the roster object under id \<open>i\<close> (to an inherited member when
  \<open>i\<close> is not in the roster, which leaves the roster as it is), and to fields of a cell.
\<close>

definition modPlayer :: "pid \<Rightarrow> (jsPlayer \<Rightarrow> jsPlayer) \<Rightarrow> jsGame \<Rightarrow> jsGame" where
  "modPlayer i f g =
     g\<lparr>jsRoster := map (\<lambda>(k, p). (k, if k = i then f p else p)) (jsRoster g)\<rparr>"

definition modGrid :: "nat \<Rightarrow> (cell \<Rightarrow> cell) \<Rightarrow> jsGame \<Rightarrow> jsGame" where
  "modGrid k f g = g\<lparr>jsGrid := (jsGrid g)[k := f (jsGrid g ! k)]\<rparr>"

definition newGameJS :: "int list list \<Rightarrow> jsGame" where
  "newGameJS landMask = \<lparr>jsGrid = cells (newGame landMask), jsRoster = []\<rparr>"

definition addPlayerJS :: "jsGame \<Rightarrow> pid \<Rightarrow> string \<Rightarrow> nat \<Rightarrow> bool \<times> jsGame" where
  "addPlayerJS g i nm hue =
     (if length (jsRoster g) \<ge> MAX_PLAYERS_PER_GAME then (False, g)
      else (True,
        g\<lparr>jsRoster := AList.update i
             \<lparr>jsId = i, jsName = nm, jsColor = hue, jsCells = [], jsTroops = Num 0\<rparr>
             (jsRoster g)\<rparr>))"

text \<open>\<open>spawn\<close>: \<open>this.players[id].cells\<close> is \<open>undefined\<close> for an inherited member too.\<close>

definition spawnJS :: "nat \<Rightarrow> jsGame \<Rightarrow> pid \<Rightarrow> int \<Rightarrow> int \<Rightarrow> jsOutcome" where
  "spawnJS W g i x y =
     (let idx = y * int W + x in
      case cellAt (jsGrid g) idx of
        None \<Rightarrow> Inl (TypeError, g)
      | Some c \<Rightarrow>
          if \<not> land c \<or> \<not> falsy (owner c) then Inr (False, g)
          else
            (let g1 = modGrid (nat idx) (\<lambda>c. (claimCell i c)\<lparr>ctroops := 0\<rparr>) g in
             case playersGet g1 i of
               Own p \<Rightarrow>
                 Inr (True,
                   modPlayer i (\<lambda>p. p\<lparr>jsTroops := plusN (jsTroops p) (Num 10)\<rparr>)
                     (modPlayer i (\<lambda>p. p\<lparr>jsCells := setAdd (nat idx) (jsCells p)\<rparr>) g1))
             | _ \<Rightarrow> Inl (TypeError, g1)))"

text \<open>
  \<open>attack\<close>, line by line.  \<open>player.cells.add\<close> and \<open>defender.cells.delete\<close> throw when
  the object is an inherited member.
\<close>

definition attackJS ::
  "nat \<Rightarrow> jsGame \<Rightarrow> pid \<Rightarrow> int \<Rightarrow> int \<Rightarrow> int \<Rightarrow> int \<Rightarrow> rat \<Rightarrow> jsOutcome" where
  "attackJS W g i srcX srcY dstX dstY percent =
     (let srcIdx = srcY * int W + srcX;
          dstIdx = dstY * int W + dstX;
          dstCell = cellAt (jsGrid g) dstIdx;
          player = playersGet g i in
      if player = Undefined then Inr (False, g)
      else
        (case cellAt (jsGrid g) srcIdx of
           None \<Rightarrow> Inr (False, g)
         | Some srcCell \<Rightarrow>
             if owner srcCell \<noteq> Some i then Inr (False, g)
             else if \<not> moveOk W (jsGrid g) srcX srcY dstX dstY srcCell dstCell
               then Inr (False, g)
             else
               (let totalTroops = troopsOf player;
                    toSend = floorTimes totalTroops percent in
                if lessN toSend (Num 1) then Inr (False, g)
                else
                  (let g1 = modPlayer i (\<lambda>p. p\<lparr>jsTroops := minusN (jsTroops p) toSend\<rparr>) g in
                   case dstCell of
                     None \<Rightarrow> Inl (TypeError, g1)
                   | Some dc \<Rightarrow>
                       if falsy (owner dc) then
                         (let g2 = modGrid (nat dstIdx) (claimCell i) g1 in
                          if player = Inherited then Inl (TypeError, g2)
                          else
                            Inr (True,
                              modPlayer i
                                (\<lambda>p. p\<lparr>jsCells := setAdd (nat dstIdx) (jsCells p)\<rparr>) g2))
                       else if owner dc = Some i then Inr (False, g1)
                       else
                         (case owner dc of
                            None \<Rightarrow> Inr (False, g1)
                          | Some defenderId \<Rightarrow>
                              (let defender = playersGet g1 defenderId in
                               if defender = Undefined then Inr (False, g1)
                               else if lessN (troopsOf defender) toSend then
                                 (let g2 = modPlayer defenderId (\<lambda>p. p\<lparr>jsTroops := Num 0\<rparr>) g1 in
                                  if defender = Inherited then Inl (TypeError, g2)
                                  else
                                    (let g3 = modGrid (nat dstIdx) (claimCell i)
                                           (modPlayer defenderId
                                              (\<lambda>p. p\<lparr>jsCells :=
                                                     setDelete (nat dstIdx) (jsCells p)\<rparr>) g2) in
                                     if player = Inherited then Inl (TypeError, g3)
                                     else
                                       Inr (True,
                                         modPlayer i
                                           (\<lambda>p. p\<lparr>jsCells :=
                                                  setAdd (nat dstIdx) (jsCells p)\<rparr>) g3)))
                               else
                                 Inr (True,
                                   modPlayer defenderId
                                     (\<lambda>p. p\<lparr>jsTroops := minusN (jsTroops p) toSend\<rparr>)
                                     g1)))))))"

text \<open>The troop pool of a roster player.\<close>

definition poolJS :: "jsGame \<Rightarrow> pid \<Rightarrow> number option" where
  "poolJS g i = map_option jsTroops (map_of (jsRoster g) i)"

text \<open>
  The world of the engine read as a world of this subsection: every pool is a number.
\<close>

definition liftPlayer :: "player \<Rightarrow> jsPlayer" where
  "liftPlayer p = \<lparr>jsId = pid p, jsName = name p, jsColor = color p, jsCells = pcells p,
                   jsTroops = Num (troops p)\<rparr>"

definition lift :: "game \<Rightarrow> jsGame" where
  "lift g = \<lparr>jsGrid = cells g,
            jsRoster = List.map_filter (\<lambda>(i, a). map_option (\<lambda>p. (i, liftPlayer p)) (heap g a))
                         (players g)\<rparr>"

definition liftOutcome :: "outcome \<Rightarrow> jsOutcome" where
  "liftOutcome r = (case r of Inl (e, g) \<Rightarrow> Inl (e, lift g) | Inr (ok, g) \<Rightarrow> Inr (ok, lift g))"

section \<open>Basic facts\<close>

lemma floor_rat_numeral [simp]:
  "\<lfloor>numeral a / numeral b :: rat\<rfloor> = numeral a div numeral b"
  using floor_divide_of_int_eq [of "numeral a" "numeral b", where ?'a = rat] by simp

lemmas world_defs = mkCell_def mkPlayer_def mkGame_def troopPool_def territory_def
  cellAt_def playerAt_def modObj_def modCell_def claimCell_def setAdd_def setDelete_def Let_def

lemmas target_defs = targetsOf_def adjacentTargets_def jumpTargets_def neighbours_def
  notOwn_def dirs_def

lemma cells_modObj [simp]: "cells (modObj a f g) = cells g"
  by (simp add: modObj_def)

lemma players_modObj [simp]: "players (modObj a f g) = players g"
  by (simp add: modObj_def)

lemma bots_modObj [simp]: "bots (modObj a f g) = bots g"
  by (simp add: modObj_def)

lemma nextRef_modObj [simp]: "nextRef (modObj a f g) = nextRef g"
  by (simp add: modObj_def)

lemma heap_modObj: "heap (modObj a f g) = (heap g)(a := map_option f (heap g a))"
  by (simp add: modObj_def)

lemma cells_modCell [simp]: "cells (modCell k f g) = (cells g)[k := f (cells g ! k)]"
  by (simp add: modCell_def)

lemma players_modCell [simp]: "players (modCell k f g) = players g"
  by (simp add: modCell_def)

lemma bots_modCell [simp]: "bots (modCell k f g) = bots g"
  by (simp add: modCell_def)

lemma nextRef_modCell [simp]: "nextRef (modCell k f g) = nextRef g"
  by (simp add: modCell_def)

lemma heap_modCell [simp]: "heap (modCell k f g) = heap g"
  by (simp add: modCell_def)

lemma playerAt_modObj:
  "playerAt (modObj a f g) i =
     (case playerAt g i of None \<Rightarrow> None | Some (b, p) \<Rightarrow> Some (b, if b = a then f p else p))"
  by (simp add: playerAt_def modObj_def split: option.splits)

lemma playerAt_modCell [simp]: "playerAt (modCell k f g) i = playerAt g i"
  by (simp add: playerAt_def modCell_def split: option.splits)

lemma set_setAdd [simp]: "set (setAdd i xs) = insert i (set xs)"
  by (auto simp: setAdd_def)

lemma distinct_setAdd [simp]: "distinct (setAdd i xs) = distinct xs"
  by (auto simp: setAdd_def)

lemma set_setDelete [simp]: "set (setDelete i xs) = set xs - {i}"
  by (auto simp: setDelete_def)

lemma distinct_setDelete [simp]: "distinct xs \<Longrightarrow> distinct (setDelete i xs)"
  by (simp add: setDelete_def distinct_removeAll)

section \<open>attack\<close>

text \<open>
  Claim C1 says that an attack on a cell the attacker already owns fails and leaves the
  attacker's troop pool unchanged.  \<open>attack\<close> deducts \<open>toSend\<close> before it looks at the
  owner of the destination, so the call returns \<open>false\<close> with the pool already debited:
  in the strip that \<open>a\<close> owns entirely, attacking \<open>(1,0)\<close> from \<open>(0,0)\<close> with half of a
  pool of 20 returns \<open>false\<close> and leaves a pool of 10; the cells are unchanged.
\<close>

theorem attack_own_cell_debits:
  "troopPool gOwn ''a'' = Some 20 \<and>
   (case attack 2 gOwn ''a'' 0 0 1 0 (1 / 2) of
      Inl e \<Rightarrow> False
    | Inr (ok, g') \<Rightarrow> ok = False \<and> troopPool g' ''a'' = Some 10 \<and> cells g' = cells gOwn)"
  by (simp add: gOwn_def attack_def moveOk_def resolve_def world_defs)

text \<open>
  Claim C2: a valid attack on a cell of another live player \<open>d\<close> with \<open>sent \<ge> 1\<close> succeeds
  and debits the attacker by the full \<open>sent\<close>.  If \<open>sent\<close> exceeds the defender's pool,
  that pool becomes 0, the cell leaves the defender's territory and enters the attacker's,
  and its owner is the attacker with port and city reset; otherwise (a tie included) the
  defender's pool decreases by exactly \<open>sent\<close> and neither the cells nor the territories
  change.  The attacker and the defender are distinct objects (\<open>da \<noteq> a\<close>).
\<close>

theorem attack_battle:
  assumes att: "playerAt g i = Some (a, pl)"
    and dfd: "playerAt g d = Some (da, df)" "d \<noteq> i" "d \<noteq> []" "da \<noteq> a"
    and src: "cellAt (cells g) (srcY * int W + srcX) = Some sc" "owner sc = Some i"
    and dst: "cellAt (cells g) (dstY * int W + dstX) = Some dc" "owner dc = Some d"
    and mv: "moveOk W (cells g) srcX srcY dstX dstY sc (Some dc)"
    and sent: "sent = \<lfloor>of_int (troops pl) * percent\<rfloor>" "1 \<le> sent"
    and k: "k = nat (dstY * int W + dstX)"
  shows "\<exists>g'. attack W g i srcX srcY dstX dstY percent = Inr (True, g')
           \<and> troopPool g' i = Some (troops pl - sent)
           \<and> (if sent > troops df
               then troopPool g' d = Some 0
                 \<and> territory g' d = Some (removeAll k (pcells df))
                 \<and> k \<notin> set (removeAll k (pcells df))
                 \<and> territory g' i = Some (setAdd k (pcells pl))
                 \<and> k \<in> set (setAdd k (pcells pl))
                 \<and> cells g' = (cells g)[k := dc\<lparr>owner := Some i, port := False, city := False\<rparr>]
               else troopPool g' d = Some (troops df - sent)
                 \<and> territory g' d = Some (pcells df)
                 \<and> territory g' i = Some (pcells pl)
                 \<and> cells g' = cells g)"
proof -
  have kk: "cells g ! k = dc"
    using dst k by (simp add: cellAt_def split: if_splits)
  show ?thesis
    using assms kk
    by (simp add: attack_def resolve_def playerAt_modObj troopPool_def territory_def
        Let_def claimCell_def setDelete_def)
qed

text \<open>
  The theorem at work: against a pool of 3 the five troops sent capture the cell (and
  its port is reset); against a pool of 5 the tie leaves the cell with the defender.
\<close>

theorem attack_battle_witness:
  "(\<exists>g'. attack 3 (gDuel 3) ''a'' 0 0 1 0 (1 / 2) = Inr (True, g')
       \<and> troopPool g' ''a'' = Some 5 \<and> troopPool g' ''b'' = Some 0
       \<and> territory g' ''b'' = Some [] \<and> territory g' ''a'' = Some [0, 1]
       \<and> cells g' = [mkCell True (Some ''a'') False, mkCell True (Some ''a'') False,
                      mkCell False None False])
   \<and> (\<exists>g'. attack 3 (gDuel 5) ''a'' 0 0 1 0 (1 / 2) = Inr (True, g')
       \<and> troopPool g' ''a'' = Some 5 \<and> troopPool g' ''b'' = Some 0
       \<and> territory g' ''b'' = Some [1] \<and> territory g' ''a'' = Some [0]
       \<and> cells g' = cells (gDuel 5))"
proof -
  have h: "playerAt (gDuel t) ''a'' = Some (0, mkPlayer ''a'' [0] 10)"
    "playerAt (gDuel t) ''b'' = Some (1, mkPlayer ''b'' [1] t)"
    "cellAt (cells (gDuel t)) (0 * int 3 + 0) = Some (mkCell True (Some ''a'') False)"
    "cellAt (cells (gDuel t)) (0 * int 3 + 1) = Some (mkCell True (Some ''b'') True)"
    "moveOk 3 (cells (gDuel t)) 0 0 1 0 (mkCell True (Some ''a'') False)
       (Some (mkCell True (Some ''b'') True))"
    for t
    by (simp_all add: gDuel_def moveOk_def world_defs)
  have s: "(5::int) = \<lfloor>of_int (troops (mkPlayer ''a'' [0] 10)) * (1 / 2 :: rat)\<rfloor>"
    by (simp add: mkPlayer_def)
  have o: "owner (mkCell True (Some ''a'') False) = Some ''a''"
    "owner (mkCell True (Some ''b'') True) = Some ''b''"
    by (simp_all add: mkCell_def)
  have n: "''b'' \<noteq> ''a''" "''b'' \<noteq> []" "(1::nat) \<noteq> 0" "(1::int) \<le> 5"
    "(1::nat) = nat (0 * int 3 + 1)"
    by simp_all
  from attack_battle [OF h(1) h(2) n(1) n(2) n(3) h(3) o(1) h(4) o(2) h(5) s n(4) n(5), of 3]
       attack_battle [OF h(1) h(2) n(1) n(2) n(3) h(3) o(1) h(4) o(2) h(5) s n(4) n(5), of 5]
  show ?thesis
    by (simp add: gDuel_def mkPlayer_def mkCell_def mkGame_def setAdd_def)
qed

text \<open>
  Claim C4 says that an attack is accepted only at Chebyshev distance 1, or at distance 2
  along a straight or diagonal line through water from a port, and that an offset such
  as \<open>(2,1)\<close> fails.  \<open>attack\<close> only tests \<open>max |dx| |dy| = 2\<close> and takes as intermediate
  cell the one at \<open>(sign dx, sign dy)\<close>; \<open>expand\<close> and \<open>botAct\<close> enumerate the eight
  straight and diagonal jumps only.  From the port at \<open>(0,0)\<close> the attack on \<open>(2,1)\<close>
  over the water cell \<open>(1,1)\<close> is accepted and captures the cell.
\<close>

theorem attack_offset_2_1_accepted:
  "(case attack 3 gKnight ''a'' 0 0 2 1 (1 / 2) of
      Inl e \<Rightarrow> False
    | Inr (ok, g') \<Rightarrow> ok = True \<and> troopPool g' ''a'' = Some 3
        \<and> owner (cells g' ! 5) = Some ''a'' \<and> territory g' ''a'' = Some [0, 5])
   \<and> (2, 1) \<notin> set (targetsOf 3 2 (cells gKnight) ''a'' 0 0 (cells gKnight ! 0))"
  by (simp add: gKnight_def attack_def moveOk_def resolve_def world_defs target_defs)

text \<open>
  Claim C10: at Chebyshev distance 1 the land flag of the destination plays no role.  An
  attack with at least one troop on an adjacent unowned cell succeeds whatever the flag:
  the attacker is debited, becomes the owner, and the cell joins its territory.  When the
  cell is water, \<open>spawn\<close> on the same cell is refused for every player.
\<close>

theorem attack_adjacent_ignores_land:
  assumes pl: "playerAt g i = Some (a, pl)"
    and src: "cellAt (cells g) (srcY * int W + srcX) = Some sc" "owner sc = Some i"
    and adj: "max \<bar>dstX - srcX\<bar> \<bar>dstY - srcY\<bar> = 1"
    and dst: "cellAt (cells g) (dstY * int W + dstX) = Some dc" "owner dc = None"
    and sent: "sent = \<lfloor>of_int (troops pl) * percent\<rfloor>" "1 \<le> sent"
    and k: "k = nat (dstY * int W + dstX)"
  shows "\<exists>g'. attack W g i srcX srcY dstX dstY percent = Inr (True, g')
           \<and> cells g' = (cells g)[k := dc\<lparr>owner := Some i, port := False, city := False\<rparr>]
           \<and> owner (cells g' ! k) = Some i
           \<and> land (cells g' ! k) = land dc
           \<and> territory g' i = Some (setAdd k (pcells pl))
           \<and> k \<in> set (setAdd k (pcells pl))
           \<and> troopPool g' i = Some (troops pl - sent)
           \<and> (\<not> land dc \<longrightarrow> spawn W g j dstX dstY = Inr (False, g))"
proof -
  have kk: "cells g ! k = dc" "k < length (cells g)"
    using dst k by (simp_all add: cellAt_def split: if_splits)
  show ?thesis
    using assms kk
    by (simp add: attack_def moveOk_def resolve_def spawn_def playerAt_modObj troopPool_def
        territory_def Let_def claimCell_def)
qed

theorem attack_adjacent_ignores_land_witness:
  "\<exists>g'. attack 2 gShore ''a'' 0 0 1 0 (1 / 2) = Inr (True, g')
      \<and> cells g' = [mkCell True (Some ''a'') False, mkCell False (Some ''a'') False]
      \<and> territory g' ''a'' = Some [0, 1]
      \<and> troopPool g' ''a'' = Some 5
      \<and> spawn 2 gShore ''b'' 1 0 = Inr (False, gShore)"
proof -
  have h: "playerAt gShore ''a'' = Some (0, mkPlayer ''a'' [0] 10)"
    "cellAt (cells gShore) (0 * int 2 + 0) = Some (mkCell True (Some ''a'') False)"
    "cellAt (cells gShore) (0 * int 2 + 1) = Some (mkCell False None False)"
    by (simp_all add: gShore_def world_defs)
  have o: "owner (mkCell True (Some ''a'') False) = Some ''a''"
    "owner (mkCell False None False) = None"
    "max \<bar>1 - 0\<bar> \<bar>0 - 0\<bar> = (1::int)"
    "(5::int) = \<lfloor>of_int (troops (mkPlayer ''a'' [0] 10)) * (1 / 2 :: rat)\<rfloor>"
    "(1::int) \<le> 5" "(1::nat) = nat (0 * int 2 + 1)"
    by (simp_all add: mkCell_def mkPlayer_def)
  from attack_adjacent_ignores_land [OF h(1) h(2) o(1) o(3) h(3) o(2) o(4) o(5) o(6), of "''b''"]
  obtain g' where g': "attack 2 gShore ''a'' 0 0 1 0 (1 / 2) = Inr (True, g')"
    "cells g' = (cells gShore)[1 := (mkCell False None False)\<lparr>owner := Some ''a'', port := False, city := False\<rparr>]"
    "territory g' ''a'' = Some (setAdd 1 (pcells (mkPlayer ''a'' [0] 10)))"
    "troopPool g' ''a'' = Some (troops (mkPlayer ''a'' [0] 10) - 5)"
    "\<not> land (mkCell False None False) \<longrightarrow> spawn 2 gShore ''b'' 1 0 = Inr (False, gShore)"
    by auto
  show ?thesis
    using g' by (intro exI [of _ g']) (simp add: gShore_def mkPlayer_def mkCell_def mkGame_def setAdd_def)
qed

section \<open>expand and spawn\<close>

text \<open>
  Claim C5 says that \<open>expand\<close> splits the pool evenly: each of the \<open>k\<close> sub-attacks commits
  \<open>floor(initialPool * fraction / k)\<close> troops.  \<open>expand\<close> passes \<open>percent / k\<close> to \<open>attack\<close>,
  which applies it to the pool that the earlier sub-attacks have already reduced.  From
  the middle of the strip with a pool of 10 and fraction 1 the two targets are \<open>(0,0)\<close>
  and \<open>(2,0)\<close>; the first sub-attack sends 5, the second sends 2 of the remaining 5, and
  the pool ends at 3 instead of 0.
\<close>

theorem expand_uneven_split:
  "targetsOf 3 1 (cells gRow) ''a'' 1 0 (cells gRow ! 1) = [(0, 0), (2, 0)]
   \<and> (case attack 3 gRow ''a'' 1 0 0 0 (1 / 2) of
        Inl e \<Rightarrow> False
      | Inr (ok, g1) \<Rightarrow> ok = True \<and> troopPool g1 ''a'' = Some 5 \<and>
          (case attack 3 g1 ''a'' 1 0 2 0 (1 / 2) of
             Inl e \<Rightarrow> False
           | Inr (ok, g2) \<Rightarrow> ok = True \<and> troopPool g2 ''a'' = Some 3))
   \<and> (case expand 3 1 gRow ''a'' 1 0 1 of
        Inl e \<Rightarrow> False
      | Inr (ok, g') \<Rightarrow> ok = True \<and> troopPool g' ''a'' = Some 3
          \<and> territory g' ''a'' = Some [1, 0, 2])"
  by (simp add: gRow_def expand_def attack_def moveOk_def resolve_def world_defs target_defs)

text \<open>
  Claim C6 says that every command with a coordinate outside the grid returns a boolean
  failure, throws nothing and changes nothing.  \<open>spawn\<close> has no bounds check: on the
  2 by 2 square, \<open>spawn\<close> at \<open>(2,1)\<close> reads \<open>cells[4]\<close>, which is \<open>undefined\<close>, and throws;
  \<open>spawn\<close> at \<open>(-1,1)\<close> reads \<open>cells[1]\<close>, the cell \<open>(1,0)\<close>, claims it and returns
  \<open>true\<close>.  \<open>attack\<close> from \<open>(1,0)\<close> to \<open>(2,0)\<close>, one step to the right of the last column,
  captures \<open>cells[2]\<close>, the cell \<open>(0,1)\<close>.
\<close>

theorem spawn_out_of_bounds:
  "spawn 2 gSq ''a'' 2 1 = Inl (TypeError, gSq)
   \<and> (case spawn 2 gSq ''a'' (- 1) 1 of
        Inl e \<Rightarrow> False
      | Inr (ok, g') \<Rightarrow> ok = True \<and> owner (cells g' ! 1) = Some ''a''
          \<and> troopPool g' ''a'' = Some 10 \<and>
          (case attack 2 g' ''a'' 1 0 2 0 1 of
             Inl e \<Rightarrow> False
           | Inr (ok, g'') \<Rightarrow> ok = True \<and> owner (cells g'' ! 2) = Some ''a''))"
  by (simp add: gSq_def spawn_def attack_def moveOk_def resolve_def world_defs)

theorem spawn_out_of_bounds_witness:
  "spawn 2 gSq ''a'' 2 1 = Inl (TypeError, gSq)"
  using spawn_out_of_bounds by (rule conjunct1)

section \<open>The growth step\<close>

lemma countCities_eq:
  "\<forall>k\<in>set ks. k < length cs \<Longrightarrow>
     countCities cs ks n = Inr (n + int (length (filter (\<lambda>k. city (cs ! k)) ks)))"
  by (induction ks arbitrary: n) auto

lemma growPlayer_eq:
  "\<forall>k\<in>set (pcells p). k < length cs \<Longrightarrow> growPlayer cs p = Inr (grownPlayer cs p)"
  by (simp add: growPlayer_def countCities_eq grownPlayer_def grown_def growth_def maxTroops_def)

lemma growAll_eq:
  assumes "distinct (map snd es)"
    and "\<forall>e\<in>set es. \<exists>p. heap g (snd e) = Some p \<and> (\<forall>k\<in>set (pcells p). k < length (cells g))"
  shows "growAll es g =
           Inr (g\<lparr>heap := (\<lambda>a. if a \<in> snd ` set es then map_option (grownPlayer (cells g)) (heap g a)
                               else heap g a)\<rparr>)"
  using assms
proof (induction es arbitrary: g)
  case Nil
  then show ?case by simp
next
  case (Cons e es)
  from Cons.prems obtain p where p: "heap g (snd e) = Some p"
    "\<forall>k\<in>set (pcells p). k < length (cells g)" by auto
  let ?g1 = "g\<lparr>heap := (heap g)(snd e \<mapsto> grownPlayer (cells g) p)\<rparr>"
  have notin: "snd e \<notin> snd ` set es" using Cons.prems(1) by auto
  have ne: "\<forall>e'\<in>set es. snd e' \<noteq> snd e" using notin by (metis imageI)
  have pre: "\<forall>e'\<in>set es. \<exists>p. heap ?g1 (snd e') = Some p
                \<and> (\<forall>k\<in>set (pcells p). k < length (cells ?g1))"
    using Cons.prems(2) ne by simp
  have d: "distinct (map snd es)" using Cons.prems(1) by simp
  have "growAll (e # es) g = growAll es ?g1"
    using p by (simp add: growPlayer_eq)
  also have "\<dots> = Inr (?g1\<lparr>heap := (\<lambda>a. if a \<in> snd ` set es
                                  then map_option (grownPlayer (cells ?g1)) (heap ?g1 a)
                                  else heap ?g1 a)\<rparr>)"
    by (rule Cons.IH [OF d pre])
  also have "\<dots> = Inr (g\<lparr>heap := (\<lambda>a. if a \<in> snd ` set (e # es)
                                  then map_option (grownPlayer (cells g)) (heap g a)
                                  else heap g a)\<rparr>)"
    using notin p by (auto simp: fun_eq_iff)
  finally show ?case .
qed

text \<open>
  Claim C3 as stated exempts a player with no territory and an empty pool from the
  growth step.  \<open>update\<close> has no such guard: a player that has joined and not spawned
  goes from 0 to \<open>min (0 + 1) 5 = 1\<close> on the first tick.
\<close>

theorem growth_idle_player_counterexample:
  "troopPool gIdle ''a'' = Some 0 \<and> territory gIdle ''a'' = Some [] \<and>
   (case update 1 1 (\<lambda>k n. 0) gIdle of
      Inl e \<Rightarrow> False
    | Inr g' \<Rightarrow> troopPool g' ''a'' = Some 1)"
  by (simp add: gIdle_def update_def growPlayer_def grown_def growth_def maxTroops_def
      world_defs)

text \<open>
  Claim C3, amended: the growth step of a tick updates the pool of every player, whatever
  its territory and pool, to
  \<open>min (troopPool + max 1 (troopPool div 3)) (5 + territorySize div 2 + 5 * cityCount)\<close>,
  where \<open>territorySize\<close> is the size of the player's territory set and \<open>cityCount\<close> the
  number of its cells with a city; cells and the roster are unchanged.  (Distinct players
  are distinct objects, and no territory holds an index outside the grid.)
\<close>

theorem growth_every_player:
  assumes "distinct (map snd (players g))"
    and "\<forall>e\<in>set (players g). \<exists>p. heap g (snd e) = Some p
            \<and> (\<forall>k\<in>set (pcells p). k < length (cells g))"
    and "playerAt g i = Some (a, p)"
  shows "\<exists>g'. growAll (players g) g = Inr g' \<and> cells g' = cells g \<and> players g' = players g
           \<and> playerAt g' i =
               Some (a, p\<lparr>troops := min (troops p + max 1 (troops p div 3))
                            (5 + int (length (pcells p)) div 2
                               + 5 * int (length (filter (\<lambda>k. city (cells g ! k)) (pcells p))))\<rparr>)"
proof -
  from assms(3) have "(i, a) \<in> set (players g)" "heap g a = Some p"
    by (auto simp: playerAt_def split: option.splits dest: map_of_SomeD)
  then have a: "a \<in> snd ` set (players g)" "map_of (players g) i = Some a"
    using assms(3) by (force, simp add: playerAt_def split: option.splits)
  show ?thesis
    using a \<open>heap g a = Some p\<close>
    by (simp add: growAll_eq [OF assms(1,2)] playerAt_def grownPlayer_def)
qed

theorem growth_every_player_witness:
  "\<exists>g'. growAll (players gOwn) gOwn = Inr g' \<and> cells g' = cells gOwn
      \<and> troopPool g' ''a'' = Some 6 \<and> territory g' ''a'' = Some [0, 1]"
proof -
  have h: "distinct (map snd (players gOwn))"
    "\<forall>e\<in>set (players gOwn). \<exists>p. heap gOwn (snd e) = Some p
        \<and> (\<forall>k\<in>set (pcells p). k < length (cells gOwn))"
    "playerAt gOwn ''a'' = Some (0, mkPlayer ''a'' [0, 1] 20)"
    by (simp_all add: gOwn_def world_defs)
  from growth_every_player [OF h]
  show ?thesis
    by (auto simp: troopPool_def territory_def mkPlayer_def gOwn_def mkGame_def mkCell_def)
qed

lemma grown_le: "grown cap t \<le> cap"
  by (simp add: grown_def)

lemma grown_fix: "grown cap cap = cap"
  by (simp add: grown_def growth_def)

lemma grown_above: "cap \<le> t \<Longrightarrow> 0 \<le> t \<Longrightarrow> grown cap t = cap"
  by (simp add: grown_def growth_def)

lemma grown_step: "t \<le> cap \<Longrightarrow> min (t + 1) cap \<le> grown cap t"
  by (simp add: grown_def growth_def)

lemma iter_le: "0 < n \<Longrightarrow> (grown cap ^^ n) t \<le> cap"
  by (cases n) (simp_all add: grown_le)

lemma iter_le0: "t \<le> cap \<Longrightarrow> (grown cap ^^ n) t \<le> cap"
  by (cases n) (simp_all add: grown_le)

lemma iter_ge: "t \<le> cap \<Longrightarrow> min (t + int n) cap \<le> (grown cap ^^ n) t"
proof (induction n)
  case 0
  then show ?case by simp
next
  case (Suc n)
  have le: "(grown cap ^^ n) t \<le> cap" using Suc.prems by (rule iter_le0)
  have "min ((grown cap ^^ n) t + 1) cap \<le> grown cap ((grown cap ^^ n) t)"
    using le by (rule grown_step)
  with Suc.IH [OF Suc.prems] show ?case by simp
qed

lemma iter_reach:
  assumes "t \<le> cap" "nat (cap - t) \<le> n"
  shows "(grown cap ^^ n) t = cap"
proof -
  have "min (t + int n) cap \<le> (grown cap ^^ n) t" using assms(1) by (rule iter_ge)
  moreover have "min (t + int n) cap = cap" using assms by simp
  moreover have "(grown cap ^^ n) t \<le> cap" using assms(1) by (rule iter_le0)
  ultimately show ?thesis by simp
qed

lemma iter_fix: "(grown cap ^^ n) cap = cap"
  by (induction n) (simp_all add: grown_fix)

lemma grownPlayer_grown:
  "grownPlayer cs p =
     p\<lparr>troops := grown (5 + int (length (pcells p)) div 2
                        + 5 * int (length (filter (\<lambda>k. city (cs ! k)) (pcells p))))
                    (troops p)\<rparr>"
  by (simp add: grownPlayer_def grown_def growth_def)

lemma growSteps_eq:
  assumes "distinct (map snd (players g))"
    and "\<forall>e\<in>set (players g). \<exists>p. heap g (snd e) = Some p
            \<and> (\<forall>k\<in>set (pcells p). k < length (cells g))"
    and "(i, a) \<in> set (players g)" and "heap g a = Some p"
  shows "\<exists>g'. growSteps n g = Inr g' \<and> cells g' = cells g \<and> players g' = players g
           \<and> (\<forall>e\<in>set (players g). \<exists>p. heap g' (snd e) = Some p
                  \<and> (\<forall>k\<in>set (pcells p). k < length (cells g)))
           \<and> heap g' a =
               Some (p\<lparr>troops :=
                 (grown (5 + int (length (pcells p)) div 2
                          + 5 * int (length (filter (\<lambda>k. city (cells g ! k)) (pcells p)))) ^^ n)
                   (troops p)\<rparr>)"
proof (induction n)
  case 0
  show ?case using assms by simp
next
  case (Suc n)
  then obtain g' where g': "growSteps n g = Inr g'" "cells g' = cells g"
    "players g' = players g"
    "\<forall>e\<in>set (players g). \<exists>p. heap g' (snd e) = Some p
        \<and> (\<forall>k\<in>set (pcells p). k < length (cells g))"
    "heap g' a =
       Some (p\<lparr>troops :=
         (grown (5 + int (length (pcells p)) div 2
                  + 5 * int (length (filter (\<lambda>k. city (cells g ! k)) (pcells p)))) ^^ n)
           (troops p)\<rparr>)"
    by blast
  have d: "distinct (map snd (players g'))" using assms(1) g'(3) by simp
  have h: "\<forall>e\<in>set (players g'). \<exists>p. heap g' (snd e) = Some p
             \<and> (\<forall>k\<in>set (pcells p). k < length (cells g'))"
    using g'(2,3,4) by simp
  have a: "a \<in> snd ` set (players g)" using assms(3) by force
  show ?case
    apply (simp add: g'(1) growAll_eq [OF d h])
    apply (simp add: g' a grownPlayer_grown)
    using g'(4)
    apply (auto simp: grownPlayer_grown)
    done
qed

lemma growAll_bots: "growAll es g = Inr g' \<Longrightarrow> bots g' = bots g"
  by (induction es arbitrary: g) (auto split: option.splits sum.splits)

lemma update_no_bots: "bots g = [] \<Longrightarrow> update W H r g = growAll (players g) g"
  by (auto simp: update_def dest: growAll_bots split: sum.splits)

lemma growSteps_bots: "growSteps n g = Inr g' \<Longrightarrow> bots g' = bots g"
  by (induction n arbitrary: g') (auto dest: growAll_bots split: sum.splits)

lemma ticks_no_bots: "bots g = [] \<Longrightarrow> ticks W H rs n g = growSteps n g"
proof (induction n)
  case 0
  show ?case by simp
next
  case (Suc n)
  show ?case
  proof (cases "growSteps n g")
    case (Inl e)
    with Suc show ?thesis by simp
  next
    case (Inr g')
    then have "bots g' = []" using Suc.prems by (simp add: growSteps_bots)
    with Suc Inr show ?thesis by (simp add: update_no_bots)
  qed
qed

text \<open>
  Claim C9 as stated bounds the pool by the capacity at every point of the iteration, for
  any starting pool \<open>\<ge> 0\<close>.  The iteration can start above the capacity: \<open>spawn\<close> grants
  10 troops, and the one cell of a player that has just spawned gives the capacity
  \<open>5 + 1 div 2 + 0 = 5\<close>.  The growth step is a \<open>Math.min\<close> with the capacity, so the first
  step cuts the pool to 5.
\<close>

theorem growth_above_capacity_counterexample:
  "(case spawn 2 (snd (addPlayer (newGame [[1, 0]]) ''a'' ''Ann'' 0)) ''a'' 0 0 of
      Inl e \<Rightarrow> False
    | Inr (ok, g) \<Rightarrow> ok \<and> troopPool g ''a'' = Some 10 \<and> territory g ''a'' = Some [0]
        \<and> capacity g ''a'' = Some 5
        \<and> (case growSteps 1 g of Inl e \<Rightarrow> False | Inr g' \<Rightarrow> troopPool g' ''a'' = Some 5))"
  by (simp add: spawn_def addPlayer_def newGame_def newCell_def GRID_W_def GRID_H_def
      MAX_PLAYERS_PER_GAME_def capacity_def growPlayer_def grown_def growth_def maxTroops_def
      world_defs)

text \<open>
  Claim C9, amended.  Take a player \<open>i\<close> of the roster with pool \<open>t\<close> (any integer, so
  any \<open>t \<ge> 0\<close>) and capacity \<open>cap\<close>, and run the growth loop of \<open>update\<close> \<open>n\<close> times with nothing in between.  The
  loop returns each time and leaves the cells, the territory of \<open>i\<close> and hence its capacity
  as they were.  After \<open>n \<ge> cap - t + 1\<close> steps (one step when \<open>t > cap\<close>) the pool is
  exactly \<open>cap\<close>.  After at least one step the pool is at most \<open>cap\<close>, and when the
  starting pool is at most \<open>cap\<close> this holds from the start.  In a world without bots
  \<open>update\<close> is the growth loop, so \<open>n\<close> ticks give the same world.  (Distinct players are
  distinct objects and no territory holds an index outside the grid, as in every world
  that a run reaches.)
\<close>

theorem growth_steps_converge:
  assumes "distinct (map snd (players g))"
    and "\<forall>e\<in>set (players g). \<exists>p. heap g (snd e) = Some p
            \<and> (\<forall>k\<in>set (pcells p). k < length (cells g))"
    and "troopPool g i = Some t" and "capacity g i = Some cap"
  shows "\<exists>g' t'. growSteps n g = Inr g' \<and> cells g' = cells g
           \<and> territory g' i = territory g i \<and> capacity g' i = Some cap
           \<and> troopPool g' i = Some t'
           \<and> (Suc (nat (cap - t)) \<le> n \<longrightarrow> t' = cap)
           \<and> (0 < n \<or> t \<le> cap \<longrightarrow> t' \<le> cap)
           \<and> (bots g = [] \<longrightarrow> ticks W H rs n g = Inr g')"
proof -
  from assms(3) obtain a p where ap: "playerAt g i = Some (a, p)" and t: "troops p = t"
    by (auto simp: troopPool_def)
  then have m: "map_of (players g) i = Some a" and hp: "heap g a = Some p"
    by (auto simp: playerAt_def split: option.splits)
  from m have ia: "(i, a) \<in> set (players g)" by (rule map_of_SomeD)
  from assms(4) ap have cap: "cap = 5 + int (length (pcells p)) div 2
      + 5 * int (length (filter (\<lambda>k. city (cells g ! k)) (pcells p)))"
    by (simp add: capacity_def)
  have pos: "0 \<le> cap" unfolding cap by simp
  from growSteps_eq [OF assms(1,2) ia hp, of n] obtain g' where
    g': "growSteps n g = Inr g'" "cells g' = cells g" "players g' = players g"
    "heap g' a = Some (p\<lparr>troops := (grown cap ^^ n) t\<rparr>)"
    unfolding cap t by blast
  have pa: "playerAt g' i = Some (a, p\<lparr>troops := (grown cap ^^ n) t\<rparr>)"
    using m g'(3,4) by (simp add: playerAt_def)
  have conv: "Suc (nat (cap - t)) \<le> n \<longrightarrow> (grown cap ^^ n) t = cap"
  proof
    assume n: "Suc (nat (cap - t)) \<le> n"
    show "(grown cap ^^ n) t = cap"
    proof (cases "t \<le> cap")
      case True
      then show ?thesis using n by (intro iter_reach) simp_all
    next
      case False
      then have "grown cap t = cap" using pos by (simp add: grown_above)
      moreover from n obtain m where "n = Suc m" by (cases n) auto
      ultimately show ?thesis by (simp add: funpow_Suc_right iter_fix del: funpow.simps)
    qed
  qed
  have bound: "0 < n \<or> t \<le> cap \<longrightarrow> (grown cap ^^ n) t \<le> cap"
    using iter_le [of n cap t] iter_le0 [of t cap n] by blast
  have tk: "bots g = [] \<longrightarrow> ticks W H rs n g = Inr g'"
    using g'(1) by (simp add: ticks_no_bots)
  show ?thesis
    using g'(1,2) pa ap conv bound tk
    by (simp add: troopPool_def territory_def capacity_def cap)
qed

text \<open>
  Three cells, one of them with a city, give capacity 11: from 6 the pool is 11 after six
  growth steps, which are six ticks as there is no bot.  One cell gives capacity 5: from
  the 10 troops of a spawn the pool is 5 after one step.
\<close>

theorem growth_steps_converge_witness:
  "(\<exists>g'. growSteps 6 gTown = Inr g' \<and> troopPool g' ''a'' = Some 11
       \<and> territory g' ''a'' = Some [0, 1, 2] \<and> ticks 3 1 (\<lambda>k j n. 0) 6 gTown = Inr g')
   \<and> (\<exists>g'. growSteps 1 gShore = Inr g' \<and> troopPool g' ''a'' = Some 5)"
proof -
  have h: "distinct (map snd (players gTown))"
    "\<forall>e\<in>set (players gTown). \<exists>p. heap gTown (snd e) = Some p
        \<and> (\<forall>k\<in>set (pcells p). k < length (cells gTown))"
    "troopPool gTown ''a'' = Some 6" "capacity gTown ''a'' = Some 11"
    by (simp_all add: gTown_def capacity_def world_defs)
  have k: "distinct (map snd (players gShore))"
    "\<forall>e\<in>set (players gShore). \<exists>p. heap gShore (snd e) = Some p
        \<and> (\<forall>k\<in>set (pcells p). k < length (cells gShore))"
    "troopPool gShore ''a'' = Some 10" "capacity gShore ''a'' = Some 5"
    by (simp_all add: gShore_def capacity_def world_defs)
  have b: "bots gTown = []" "territory gTown ''a'' = Some [0, 1, 2]"
    by (simp_all add: gTown_def world_defs)
  from growth_steps_converge [OF h, of 6 3 1 "\<lambda>k j n. 0"] b
  have A: "\<exists>g'. growSteps 6 gTown = Inr g' \<and> troopPool g' ''a'' = Some 11
       \<and> territory g' ''a'' = Some [0, 1, 2] \<and> ticks 3 1 (\<lambda>k j n. 0) 6 gTown = Inr g'"
    by auto
  from growth_steps_converge [OF k, of 1 2 1 "\<lambda>k j n. 0"]
  have B: "\<exists>g'. growSteps 1 gShore = Inr g' \<and> troopPool g' ''a'' = Some 5"
    by auto
  from A B show ?thesis by simp
qed

section \<open>The territory invariant\<close>

lemma playerAt_iff:
  "playerAt g i = Some (a, p) \<longleftrightarrow> map_of (players g) i = Some a \<and> heap g a = Some p"
  by (auto simp: playerAt_def split: option.splits)

lemma playerAt_mem: "playerAt g i = Some (a, p) \<Longrightarrow> (i, a) \<in> set (players g)"
  by (auto simp: playerAt_iff dest: map_of_SomeD)

lemma storeOk_playerAt:
  assumes "storeOk g" "(i, a) \<in> set (players g)"
  shows "\<exists>p. playerAt g i = Some (a, p) \<and> pid p = i \<and> i \<noteq> []"
proof -
  from assms have "map_of (players g) i = Some a"
    by (simp add: storeOk_def)
  moreover from assms obtain p where "heap g a = Some p" "pid p = i" "i \<noteq> []"
    by (fastforce simp: storeOk_def)
  ultimately show ?thesis by (simp add: playerAt_iff)
qed

lemma storeOk_known: "storeOk g \<Longrightarrow> playerAt g i = None \<Longrightarrow> i \<notin> fst ` set (players g)"
  by (auto dest: storeOk_playerAt)

lemma storeOk_addr_inj:
  assumes "storeOk g" "playerAt g i = Some (a, p)" "playerAt g j = Some (a, q)"
  shows "i = j"
proof -
  from assms(2,3) have "(i, a) \<in> set (players g)" "(j, a) \<in> set (players g)"
    by (auto dest: playerAt_mem)
  moreover from assms(1) have "distinct (map snd (players g))" by (simp add: storeOk_def)
  ultimately show ?thesis
    by (metis eq_key_imp_eq_value distinct_map map_of_is_SomeI prod.collapse fst_conv snd_conv inj_onD)
qed

lemma storeOk_nonempty: "storeOk g \<Longrightarrow> playerAt g j = Some (b, q) \<Longrightarrow> j \<noteq> []"
  by (auto simp: storeOk_def dest!: playerAt_mem)

lemma falsy_not_owned: "falsy (owner c) \<Longrightarrow> j \<noteq> [] \<Longrightarrow> owner c \<noteq> Some j"
  by (cases "owner c") auto

lemma owned_update:
  "k < length cs \<Longrightarrow>
     owned (cs[k := c]) j = (if owner c = Some j then insert k (owned cs j) else owned cs j - {k})"
  by (auto simp: owned_def nth_list_update)

lemma owned_update_same:
  "owner c = owner (cs ! k) \<Longrightarrow> owned (cs[k := c]) j = owned cs j"
  by (cases "k < length cs") (auto simp: owned_def nth_list_update)

lemma cellAt_SomeD: "cellAt cs idx = Some c \<Longrightarrow> nat idx < length cs \<and> cs ! nat idx = c"
  by (auto simp: cellAt_def split: if_splits)

lemma storeOk_modObj:
  assumes "storeOk g" and "\<forall>p. heap g a = Some p \<longrightarrow> pid (f p) = pid p"
  shows "storeOk (modObj a f g)"
  using assms unfolding storeOk_def
  by (auto simp: heap_modObj)

lemma storeOk_modCell [simp]: "storeOk (modCell k f g) = storeOk g"
  by (simp add: storeOk_def)

lemma botsOk_modObj [simp]: "botsOk (modObj a f g) = botsOk g"
  by (simp add: botsOk_def)

lemma botsOk_modCell [simp]: "botsOk (modCell k f g) = botsOk g"
  by (simp add: botsOk_def)

lemma territoryOk_modObj:
  assumes "territoryOk g" and "\<forall>p. heap g a = Some p \<longrightarrow> set (pcells (f p)) = set (pcells p)"
  shows "territoryOk (modObj a f g)"
  using assms unfolding territoryOk_def
  by (auto simp: playerAt_modObj playerAt_iff split: option.splits if_splits)

lemma worldInv_modObj:
  assumes "worldInv g"
    and "\<forall>p. heap g a = Some p \<longrightarrow> pid (f p) = pid p \<and> set (pcells (f p)) = set (pcells p)"
  shows "worldInv (modObj a f g)"
  using assms by (simp add: worldInv_def storeOk_modObj territoryOk_modObj)

lemma worldInv_modCell:
  assumes "worldInv g" and "owner (f (cells g ! k)) = owner (cells g ! k)"
  shows "worldInv (modCell k f g)"
  using assms
  by (auto simp: worldInv_def territoryOk_def owned_update_same)

text \<open>A cell without owner goes to a player of the roster.\<close>

lemma worldInv_claim:
  assumes inv: "worldInv g" and pl: "playerAt g i = Some (a, p)" and k: "k < length (cells g)"
    and free: "falsy (owner (cells g ! k))" and own: "owner (f (cells g ! k)) = Some i"
  shows "worldInv (modObj a (\<lambda>p. p\<lparr>pcells := setAdd k (pcells p)\<rparr>) (modCell k f g))"
    (is "worldInv ?g'")
proof -
  from inv have st: "storeOk g" and te: "territoryOk g" and bo: "botsOk g"
    by (simp_all add: worldInv_def)
  have "storeOk ?g'"
    using st by (simp add: storeOk_modObj)
  moreover have "territoryOk ?g'"
    unfolding territoryOk_def
  proof (intro allI impI)
    fix j b q assume q: "playerAt ?g' j = Some (b, q)"
    then obtain q0 where q0: "playerAt g j = Some (b, q0)"
      and qq: "q = (if b = a then q0\<lparr>pcells := setAdd k (pcells q0)\<rparr> else q0)"
      by (auto simp: playerAt_modObj split: option.splits)
    from te q0 have t0: "set (pcells q0) = owned (cells g) j" by (simp add: territoryOk_def)
    show "set (pcells q) = owned (cells ?g') j"
    proof (cases "j = i")
      case True
      with pl q0 have "b = a" by simp
      with qq t0 True own k show ?thesis by (simp add: owned_update)
    next
      case False
      with st pl q0 have ba: "b \<noteq> a" by (auto dest: storeOk_addr_inj)
      from st q0 have "j \<noteq> []" by (rule storeOk_nonempty)
      with free have "k \<notin> owned (cells g) j" by (auto simp: owned_def dest: falsy_not_owned)
      with qq t0 False own k ba show ?thesis by (simp add: owned_update)
    qed
  qed
  moreover have "botsOk ?g'" using bo by simp
  ultimately show ?thesis by (simp add: worldInv_def)
qed

text \<open>A cell without owner goes to an id that is not in the roster (\<open>spawn\<close> before it throws).\<close>

lemma worldInv_claim_stranger:
  assumes inv: "worldInv g" and pl: "playerAt g i = None" and k: "k < length (cells g)"
    and free: "falsy (owner (cells g ! k))" and own: "owner (f (cells g ! k)) = Some i"
  shows "worldInv (modCell k f g)"
proof -
  from inv have st: "storeOk g" and te: "territoryOk g" and bo: "botsOk g"
    by (simp_all add: worldInv_def)
  have "territoryOk (modCell k f g)"
    unfolding territoryOk_def
  proof (intro allI impI)
    fix j b q assume "playerAt (modCell k f g) j = Some (b, q)"
    then have q: "playerAt g j = Some (b, q)" by simp
    with pl have ji: "j \<noteq> i" by auto
    from st q have "j \<noteq> []" by (rule storeOk_nonempty)
    with free have "k \<notin> owned (cells g) j" by (auto simp: owned_def dest: falsy_not_owned)
    moreover from te q have "set (pcells q) = owned (cells g) j" by (simp add: territoryOk_def)
    ultimately show "set (pcells q) = owned (cells (modCell k f g)) j"
      using ji own k by (simp add: owned_update)
  qed
  with st bo show ?thesis by (simp add: worldInv_def)
qed

text \<open>A cell of the player \<open>d\<close> goes to the player \<open>i\<close>.\<close>

lemma worldInv_transfer:
  assumes inv: "worldInv g" and pl: "playerAt g i = Some (a, p)"
    and df: "playerAt g d = Some (da, df)" and di: "d \<noteq> i"
    and k: "k < length (cells g)"
    and old: "owner (cells g ! k) = Some d" and own: "owner (f (cells g ! k)) = Some i"
  shows "worldInv (modObj a (\<lambda>p. p\<lparr>pcells := setAdd k (pcells p)\<rparr>)
           (modCell k f (modObj da (\<lambda>p. p\<lparr>pcells := setDelete k (pcells p)\<rparr>) g)))"
    (is "worldInv ?g'")
proof -
  from inv have st: "storeOk g" and te: "territoryOk g" and bo: "botsOk g"
    by (simp_all add: worldInv_def)
  from st pl df di have ada: "da \<noteq> a" by (auto dest: storeOk_addr_inj)
  have "storeOk ?g'"
    using st by (simp add: storeOk_modObj heap_modObj)
  moreover have "territoryOk ?g'"
    unfolding territoryOk_def
  proof (intro allI impI)
    fix j b q assume q: "playerAt ?g' j = Some (b, q)"
    then obtain q0 where q0: "playerAt g j = Some (b, q0)"
      and qq: "q = (if b = a then q0\<lparr>pcells := setAdd k (pcells q0)\<rparr>
                    else if b = da then q0\<lparr>pcells := setDelete k (pcells q0)\<rparr> else q0)"
      using ada by (auto simp: playerAt_modObj split: option.splits if_splits)
    from te q0 have t0: "set (pcells q0) = owned (cells g) j" by (simp add: territoryOk_def)
    have cs: "cells ?g' = (cells g)[k := f (cells g ! k)]" by simp
    consider "j = i" | "j = d" | "j \<noteq> i" "j \<noteq> d" by blast
    then show "set (pcells q) = owned (cells ?g') j"
    proof cases
      case 1
      with pl q0 have "b = a" by simp
      with qq t0 1 own k show ?thesis unfolding cs by (simp add: owned_update)
    next
      case 2
      with df q0 have "b = da" by simp
      with qq t0 2 own k ada di show ?thesis unfolding cs by (simp add: owned_update)
    next
      case 3
      with st pl df q0 have ba: "b \<noteq> a" "b \<noteq> da" by (auto dest: storeOk_addr_inj)
      from old 3 have "k \<notin> owned (cells g) j" by (auto simp: owned_def)
      with qq t0 3 own k ba show ?thesis unfolding cs by (simp add: owned_update)
    qed
  qed
  moreover have "botsOk ?g'" using bo by simp
  ultimately show ?thesis by (simp add: worldInv_def)
qed

lemma finalState_simps [simp]:
  "finalState (Inl (e, g)) = g" "finalState (Inr (ok, g)) = g"
  by (simp_all add: finalState_def answer_def)

lemma resolve_inv:
  assumes inv: "worldInv g" and pl: "playerAt g i = Some (a, p)"
  shows "worldInv (finalState (resolve g i a dstIdx toSend))"
proof (cases "cellAt (cells g) dstIdx")
  case None
  with inv show ?thesis by (simp add: resolve_def)
next
  case (Some dc)
  then have k: "nat dstIdx < length (cells g)" "cells g ! nat dstIdx = dc"
    by (auto dest: cellAt_SomeD)
  show ?thesis
  proof (cases "falsy (owner dc)")
    case True
    have "worldInv (modObj a (\<lambda>p. p\<lparr>pcells := setAdd (nat dstIdx) (pcells p)\<rparr>)
                (modCell (nat dstIdx) (claimCell i) g))"
      using inv pl k True by (intro worldInv_claim) (simp_all add: claimCell_def)
    with Some True show ?thesis by (simp add: resolve_def)
  next
    case False
    then obtain d where d: "owner dc = Some d" by (cases "owner dc") auto
    show ?thesis
    proof (cases "d = i \<or> playerAt g d = None")
      case True
      with Some d False inv show ?thesis by (auto simp: resolve_def)
    next
      case ne: False
      then obtain da df where df: "playerAt g d = Some (da, df)" by auto
      show ?thesis
      proof (cases "toSend > troops df")
        case True
        let ?g2 = "modObj da (\<lambda>p. p\<lparr>troops := 0\<rparr>) g"
        have i2: "worldInv ?g2" using inv by (rule worldInv_modObj) simp
        have "\<exists>p'. playerAt ?g2 i = Some (a, p')" "\<exists>df'. playerAt ?g2 d = Some (da, df')"
          using pl df by (simp_all add: playerAt_modObj)
        then obtain p' df' where pd: "playerAt ?g2 i = Some (a, p')" "playerAt ?g2 d = Some (da, df')"
          by blast
        have "worldInv (modObj a (\<lambda>p. p\<lparr>pcells := setAdd (nat dstIdx) (pcells p)\<rparr>)
                (modCell (nat dstIdx) (claimCell i)
                  (modObj da (\<lambda>p. p\<lparr>pcells := setDelete (nat dstIdx) (pcells p)\<rparr>) ?g2)))"
          using i2 pd ne k d by (intro worldInv_transfer [where d = d]) (simp_all add: claimCell_def)
        with Some d False ne df True show ?thesis by (simp add: resolve_def)
      next
        case le: False
        have "worldInv (modObj da (\<lambda>p. p\<lparr>troops := troops p - toSend\<rparr>) g)"
          using inv by (rule worldInv_modObj) simp
        with Some d False ne df le show ?thesis by (simp add: resolve_def)
      qed
    qed
  qed
qed

text \<open>The two ways \<open>attack\<close> ends: an early \<open>return false\<close>, or the resolution after the debit.\<close>

lemma attack_cases:
  obtains (refused) "attack W g i srcX srcY dstX dstY percent = Inr (False, g)"
  | (resolved) a p where "playerAt g i = Some (a, p)"
      "1 \<le> \<lfloor>of_int (troops p) * percent\<rfloor>"
      "attack W g i srcX srcY dstX dstY percent =
         resolve (modObj a (\<lambda>q. q\<lparr>troops := troops q - \<lfloor>of_int (troops p) * percent\<rfloor>\<rparr>) g)
           i a (dstY * int W + dstX) \<lfloor>of_int (troops p) * percent\<rfloor>"
proof (cases "playerAt g i")
  case None
  then have "attack W g i srcX srcY dstX dstY percent = Inr (False, g)" by (simp add: attack_def)
  then show ?thesis by (rule refused)
next
  case (Some x)
  then obtain a p where pl: "playerAt g i = Some (a, p)" by (cases x) auto
  show ?thesis
  proof (cases "attack W g i srcX srcY dstX dstY percent = Inr (False, g)")
    case True
    then show ?thesis by (rule refused)
  next
    case False
    with pl have "1 \<le> \<lfloor>of_int (troops p) * percent\<rfloor>"
      "attack W g i srcX srcY dstX dstY percent =
         resolve (modObj a (\<lambda>q. q\<lparr>troops := troops q - \<lfloor>of_int (troops p) * percent\<rfloor>\<rparr>) g)
           i a (dstY * int W + dstX) \<lfloor>of_int (troops p) * percent\<rfloor>"
      by (auto simp: attack_def Let_def split: option.splits if_splits)
    with pl show ?thesis by (rule resolved)
  qed
qed

lemma attack_inv:
  assumes inv: "worldInv g"
  shows "worldInv (finalState (attack W g i srcX srcY dstX dstY percent))"
proof (cases rule: attack_cases [of W g i srcX srcY dstX dstY percent])
  case refused
  with inv show ?thesis by simp
next
  case (resolved a p)
  let ?g1 = "modObj a (\<lambda>q. q\<lparr>troops := troops q - \<lfloor>of_int (troops p) * percent\<rfloor>\<rparr>) g"
  have "worldInv ?g1" using inv by (rule worldInv_modObj) simp
  moreover have "\<exists>p'. playerAt ?g1 i = Some (a, p')"
    using resolved(1) by (simp add: playerAt_modObj)
  ultimately show ?thesis unfolding resolved(3) by (blast intro: resolve_inv)
qed

lemma resolve_frame:
  "players (finalState (resolve g i a dstIdx toSend)) = players g
   \<and> bots (finalState (resolve g i a dstIdx toSend)) = bots g"
  by (simp add: resolve_def split: option.splits)

lemma attack_frame:
  "players (finalState (attack W g i srcX srcY dstX dstY percent)) = players g
   \<and> bots (finalState (attack W g i srcX srcY dstX dstY percent)) = bots g"
  by (cases rule: attack_cases [of W g i srcX srcY dstX dstY percent])
     (simp_all add: resolve_frame)

lemma spawn_inv:
  assumes inv: "worldInv g"
  shows "worldInv (finalState (spawn W g i x y))"
proof (cases "cellAt (cells g) (y * int W + x)")
  case None
  with inv show ?thesis by (simp add: spawn_def)
next
  case c: (Some c)
  let ?k = "nat (y * int W + x)"
  let ?f = "\<lambda>c. (claimCell i c)\<lparr>ctroops := 0\<rparr>"
  from c have k: "?k < length (cells g)" "cells g ! ?k = c"
    by (auto dest: cellAt_SomeD)
  show ?thesis
  proof (cases "\<not> land c \<or> \<not> falsy (owner c)")
    case True
    with c inv show ?thesis by (auto simp: spawn_def)
  next
    case free: False
    show ?thesis
    proof (cases "playerAt g i")
      case None
      have "worldInv (modCell ?k ?f g)"
        using inv None k free by (intro worldInv_claim_stranger [where i = i]) (simp_all add: claimCell_def)
      with c free None show ?thesis by (simp add: spawn_def Let_def)
    next
      case (Some ap)
      then obtain a p where pl: "playerAt g i = Some (a, p)" by (cases ap) auto
      have "worldInv (modObj a (\<lambda>p. p\<lparr>pcells := setAdd ?k (pcells p)\<rparr>) (modCell ?k ?f g))"
        using inv pl k free by (intro worldInv_claim) (simp_all add: claimCell_def)
      then have "worldInv (modObj a (\<lambda>p. p\<lparr>troops := troops p + 10\<rparr>)
                   (modObj a (\<lambda>p. p\<lparr>pcells := setAdd ?k (pcells p)\<rparr>) (modCell ?k ?f g)))"
        by (rule worldInv_modObj) simp
      with c free pl show ?thesis
        by (simp add: spawn_def Let_def)
    qed
  qed
qed

lemma attackAll_inv:
  "worldInv g \<Longrightarrow> worldInv (finalState (attackAll W i x y per ts any g))"
proof (induction ts arbitrary: any g)
  case Nil
  then show ?case by simp
next
  case (Cons t ts)
  have s: "worldInv (finalState (attack W g i x y (fst t) (snd t) per))"
    using Cons.prems by (rule attack_inv)
  show ?case
  proof (cases "attack W g i x y (fst t) (snd t) per")
    case (Inl eg)
    with s show ?thesis by (cases eg) simp
  next
    case (Inr og)
    with s Cons.IH show ?thesis by (cases og) simp
  qed
qed

lemma expand_inv:
  "worldInv g \<Longrightarrow> worldInv (finalState (expand W H g i x y percent))"
  by (simp add: expand_def Let_def attackAll_inv split: option.splits)

lemma buildPort_inv: "worldInv g \<Longrightarrow> worldInv (snd (buildPort W H g i x y))"
  by (auto simp: buildPort_def Let_def split: option.splits if_splits
      intro!: worldInv_modCell worldInv_modObj)

lemma buildCity_inv: "worldInv g \<Longrightarrow> worldInv (snd (buildCity W g i x y))"
  by (auto simp: buildCity_def Let_def split: option.splits if_splits
      intro!: worldInv_modCell worldInv_modObj)

lemma growPlayer_fields:
  "growPlayer cs p = Inr p' \<Longrightarrow> pid p' = pid p \<and> pcells p' = pcells p"
  by (auto simp: growPlayer_def Let_def split: sum.splits)

lemma heap_upd_modObj: "heap g a = Some p \<Longrightarrow> g\<lparr>heap := (heap g)(a \<mapsto> p')\<rparr> = modObj a (\<lambda>_. p') g"
  by (simp add: modObj_def)

lemma growAll_inv: "worldInv g \<Longrightarrow> growAll es g = Inr g' \<Longrightarrow> worldInv g'"
proof (induction es arbitrary: g)
  case Nil
  then show ?case by simp
next
  case (Cons e es)
  from Cons.prems(2) obtain p p' where p: "heap g (snd e) = Some p"
    and p': "growPlayer (cells g) p = Inr p'"
    and r: "growAll es (g\<lparr>heap := (heap g)(snd e \<mapsto> p')\<rparr>) = Inr g'"
    by (auto split: option.splits sum.splits)
  have "worldInv (modObj (snd e) (\<lambda>_. p') g)"
    using Cons.prems(1) p growPlayer_fields [OF p'] by (intro worldInv_modObj) simp_all
  then have "worldInv (g\<lparr>heap := (heap g)(snd e \<mapsto> p')\<rparr>)" using p by (simp add: heap_upd_modObj)
  then show ?case using r by (rule Cons.IH)
qed

lemma growAll_frame:
  "growAll es g = Inr g' \<Longrightarrow> bots g' = bots g \<and> players g' = players g \<and> cells g' = cells g"
proof (induction es arbitrary: g)
  case Nil
  then show ?case by simp
next
  case (Cons e es)
  then show ?case by (fastforce split: option.splits sum.splits)
qed

lemma bot_playerAt:
  assumes "worldInv g" "a \<in> set (bots g)" "heap g a = Some b"
  shows "playerAt g (pid b) = Some (a, b)"
proof -
  from assms(1,2) obtain i where i: "(i, a) \<in> set (players g)"
    by (auto simp: worldInv_def botsOk_def)
  with assms(1) obtain p where "playerAt g i = Some (a, p)" "pid p = i"
    by (auto simp: worldInv_def dest: storeOk_playerAt)
  with assms(3) show ?thesis by (simp add: playerAt_iff)
qed

lemma botSpawn_inv:
  assumes "worldInv g" "playerAt g (pid b) = Some (a, b)"
  shows "botSpawn W H a r ts g = Inr g' \<Longrightarrow> worldInv g'"
proof (induction ts)
  case Nil
  with assms show ?case by simp
next
  case (Cons t ts)
  let ?idx = "\<lfloor>r (2 * t + 1) * of_nat H\<rfloor> * int W + \<lfloor>r (2 * t) * of_nat W\<rfloor>"
  from Cons.prems obtain c where c: "cellAt (cells g) ?idx = Some c"
    by (auto simp: Let_def split: option.splits)
  then have k: "nat ?idx < length (cells g)" "cells g ! nat ?idx = c"
    by (auto dest: cellAt_SomeD)
  from assms(2) have hb: "heap g a = Some b" by (simp add: playerAt_iff)
  show ?case
  proof (cases "land c \<and> falsy (owner c)")
    case True
    with Cons.prems c hb
    have g': "g' = modObj a (\<lambda>p. p\<lparr>troops := 10\<rparr>)
                 (modObj a (\<lambda>p. p\<lparr>pcells := setAdd (nat ?idx) (pcells p)\<rparr>)
                    (modCell (nat ?idx) (claimCell (pid b)) g))"
      by (simp add: Let_def)
    have "worldInv (modObj a (\<lambda>p. p\<lparr>pcells := setAdd (nat ?idx) (pcells p)\<rparr>)
                    (modCell (nat ?idx) (claimCell (pid b)) g))"
      using assms k True by (intro worldInv_claim) (simp_all add: claimCell_def)
    then show ?thesis unfolding g' by (rule worldInv_modObj) simp
  next
    case False
    with Cons.prems c have "botSpawn W H a r ts g = Inr g'" by (auto simp: Let_def)
    then show ?thesis by (rule Cons.IH)
  qed
qed

lemma botSpawn_frame:
  "botSpawn W H a r ts g = Inr g' \<Longrightarrow> bots g' = bots g \<and> players g' = players g"
  by (induction ts) (auto simp: Let_def split: option.splits if_splits)

text \<open>The three ways \<open>botAct\<close> returns: after the spawn loop, without a move, or after an attack.\<close>

lemma botAct_cases:
  assumes res: "botAct W H a r g = Inr g'"
  obtains (spawn) b where "heap g a = Some b" "botSpawn W H a r [0..<50] g = Inr g'"
  | (idle) "g' = g"
  | (attack) b x y tx ty ok where "heap g a = Some b" "1 \<le> troops b div 2"
      "attack W g (pid b) x y tx ty (of_int (troops b div 2) / of_int (troops b)) = Inr (ok, g')"
proof (cases "heap g a")
  case None
  with res show ?thesis by (simp add: botAct_def)
next
  case (Some b)
  show ?thesis
  proof (cases "length (pcells b) = 0")
    case True
    with res Some have "botSpawn W H a r [0..<50] g = Inr g'" by (simp add: botAct_def)
    with Some show ?thesis by (rule spawn)
  next
    case False
    define k where "k = nat \<lfloor>r 0 * of_nat (length (pcells b))\<rfloor>"
    define srcIdx where "srcIdx = pcells b ! k"
    have ok: "\<not> (r 0 < 0 \<or> k \<ge> length (pcells b))"
      using res Some False by (auto simp: botAct_def Let_def k_def)
    obtain srcCell where sc: "cellAt (cells g) (int srcIdx) = Some srcCell"
      using res Some False ok
      by (cases "cellAt (cells g) (int srcIdx)") (auto simp: botAct_def Let_def k_def srcIdx_def)
    define x where "x = int (srcIdx mod W)"
    define y where "y = int (srcIdx div W)"
    define ts where "ts = targetsOf W H (cells g) (pid b) x y srcCell"
    define m where "m = nat \<lfloor>r 1 * of_nat (length ts)\<rfloor>"
    have unf: "botAct W H a r g =
        (if length ts = 0 then Inr g
         else if troops b div 2 < 1 then Inr g
         else if r 1 < 0 \<or> m \<ge> length ts then Inl TypeError
         else (case attack W g (pid b) x y (fst (ts ! m)) (snd (ts ! m))
                      (of_int (troops b div 2) / of_int (troops b)) of
                 Inl (e, g') \<Rightarrow> Inl e | Inr (ok, g') \<Rightarrow> Inr g'))"
      using Some False ok sc
      unfolding m_def ts_def x_def y_def srcIdx_def k_def
      by (simp add: botAct_def Let_def)
    show ?thesis
    proof (cases "length ts = 0 \<or> troops b div 2 < 1")
      case True
      with res unf have "g' = g" by (auto split: if_splits)
      then show ?thesis by (rule idle)
    next
      case nz: False
      with res unf obtain ok' where
        "attack W g (pid b) x y (fst (ts ! m)) (snd (ts ! m))
           (of_int (troops b div 2) / of_int (troops b)) = Inr (ok', g')"
        by (auto split: if_splits sum.splits)
      with Some nz show ?thesis by (intro attack) simp_all
    qed
  qed
qed

lemma attack_Inr_frame:
  assumes "attack W g i srcX srcY dstX dstY percent = Inr (ok, g')"
  shows "players g' = players g \<and> bots g' = bots g"
  using attack_frame [of W g i srcX srcY dstX dstY percent] assms by simp

lemma attack_Inr_inv:
  assumes "worldInv g" "attack W g i srcX srcY dstX dstY percent = Inr (ok, g')"
  shows "worldInv g'"
  using attack_inv [OF assms(1), of W i srcX srcY dstX dstY percent] assms(2) by simp

lemma botAct_frame:
  assumes "botAct W H a r g = Inr g'"
  shows "bots g' = bots g \<and> players g' = players g"
  using assms
  by (cases rule: botAct_cases) (auto dest: botSpawn_frame attack_Inr_frame)

lemma botAct_inv:
  assumes inv: "worldInv g" and a: "a \<in> set (bots g)" and res: "botAct W H a r g = Inr g'"
  shows "worldInv g'"
  using res
proof (cases rule: botAct_cases)
  case (spawn b)
  from inv a spawn(1) have "playerAt g (pid b) = Some (a, b)" by (rule bot_playerAt)
  with inv show ?thesis using spawn(2) by (rule botSpawn_inv)
next
  case idle
  with inv show ?thesis by simp
next
  case (attack b x y tx ty ok)
  from inv attack(3) show ?thesis by (rule attack_Inr_inv)
qed

lemma botsLoop_inv:
  "worldInv g \<Longrightarrow> set bs \<subseteq> set (bots g) \<Longrightarrow> botsLoop W H r k bs g = Inr g' \<Longrightarrow> worldInv g'"
proof (induction bs arbitrary: g k)
  case Nil
  then show ?case by simp
next
  case (Cons b bs)
  from Cons.prems(3) obtain g1 where s: "botAct W H b (r k) g = Inr g1"
    and l: "botsLoop W H r (Suc k) bs g1 = Inr g'"
    by (auto split: sum.splits)
  from Cons.prems(1,2) s have "worldInv g1" by (intro botAct_inv [OF _ _ s]) simp_all
  moreover from Cons.prems(2) botAct_frame [OF s] have "set bs \<subseteq> set (bots g1)" by simp
  ultimately show ?case using l by (rule Cons.IH)
qed

lemma update_inv: "worldInv g \<Longrightarrow> update W H r g = Inr g' \<Longrightarrow> worldInv g'"
  by (auto simp: update_def split: sum.splits dest: growAll_inv intro: botsLoop_inv)

lemma update_fresh: "k \<notin> fst ` set al \<Longrightarrow> AList.update k v al = al @ [(k, v)]"
  by (induction al) auto

lemma set_delete: "set (AList.delete k al) = {e \<in> set al. fst e \<noteq> k}"
  by (auto simp: AList.delete_eq)

lemma distinct_snd_delete: "distinct (map snd al) \<Longrightarrow> distinct (map snd (AList.delete k al))"
  by (simp add: AList.delete_eq distinct_map_filter)

lemma newId_owned: "newId g i \<Longrightarrow> owned (cells g) i = {}"
  by (auto simp: newId_def owned_def list_all_iff)

text \<open>A new object enters the roster under a new id, possibly as a bot.\<close>

lemma worldInv_add:
  assumes inv: "worldInv g" and i: "i \<noteq> []" "newId g i"
    and p: "pid p = i" "pcells p = []"
    and g': "cells g' = cells g" "heap g' = (heap g)(nextRef g \<mapsto> p)"
      "players g' = AList.update i (nextRef g) (players g)" "nextRef g' = Suc (nextRef g)"
    and b: "bots g' = bots g \<or> bots g' = bots g @ [nextRef g] \<and> prefix ''bot-'' i"
  shows "worldInv g'"
proof -
  from inv have st: "storeOk g" and te: "territoryOk g" and bo: "botsOk g"
    by (simp_all add: worldInv_def)
  from i(2) have ni: "i \<notin> fst ` set (players g)" by (simp add: newId_def)
  have pl: "players g' = players g @ [(i, nextRef g)]"
    using ni g'(3) by (simp add: update_fresh)
  have lt: "\<forall>e\<in>set (players g). snd e < nextRef g" using st by (simp add: storeOk_def)
  then have fresh: "nextRef g \<notin> snd ` set (players g)" by auto
  have "storeOk g'"
    using st i(1) ni p fresh lt unfolding storeOk_def pl g'(2) g'(4)
    by (auto simp: less_Suc_eq)
  moreover have "territoryOk g'"
    unfolding territoryOk_def
  proof (intro allI impI)
    fix j b q assume q: "playerAt g' j = Some (b, q)"
    show "set (pcells q) = owned (cells g') j"
    proof (cases "j = i")
      case True
      with q have "b = nextRef g" by (simp add: playerAt_iff g'(3) update_conv')
      with q have "q = p" by (simp add: playerAt_iff g'(2))
      with p True i(2) show ?thesis by (simp add: g'(1) newId_owned)
    next
      case False
      with q have m: "map_of (players g) j = Some b" by (simp add: playerAt_iff g'(3) update_conv')
      then have "(j, b) \<in> set (players g)" by (rule map_of_SomeD)
      with lt have "b \<noteq> nextRef g" by auto
      with q m have "playerAt g j = Some (b, q)" by (simp add: playerAt_iff g'(2))
      with te show ?thesis by (simp add: territoryOk_def g'(1))
    qed
  qed
  moreover have "botsOk g'"
    unfolding botsOk_def pl
  proof
    fix a assume "a \<in> set (bots g')"
    with b consider "a \<in> set (bots g)" | "a = nextRef g" "prefix ''bot-'' i" by auto
    then show "\<exists>j. (j, a) \<in> set (players g @ [(i, nextRef g)]) \<and> prefix ''bot-'' j"
    proof cases
      case 1
      with bo obtain j where "(j, a) \<in> set (players g)" "prefix ''bot-'' j"
        by (auto simp: botsOk_def)
      then show ?thesis by auto
    next
      case 2
      then show ?thesis by auto
    qed
  qed
  ultimately show ?thesis by (simp add: worldInv_def)
qed

lemma addPlayer_inv:
  assumes "worldInv g" "i \<noteq> []" "newId g i"
  shows "worldInv (snd (addPlayer g i nm hue))"
proof (cases "length (players g) \<ge> MAX_PLAYERS_PER_GAME")
  case True
  with assms show ?thesis by (simp add: addPlayer_def)
next
  case False
  have "worldInv (g\<lparr>heap := (heap g)(nextRef g \<mapsto> \<lparr>pid = i, name = nm, color = hue, pcells = [], troops = 0\<rparr>),
          players := AList.update i (nextRef g) (players g),
          nextRef := Suc (nextRef g)\<rparr>)"
    by (rule worldInv_add [OF assms, where p = "\<lparr>pid = i, name = nm, color = hue, pcells = [], troops = 0\<rparr>"])
       simp_all
  with False show ?thesis by (simp add: addPlayer_def)
qed

lemma addBot_inv:
  assumes "worldInv g" "newId g (''bot-'' @ fst sh)"
  shows "worldInv (addBot g sh)"
  by (rule worldInv_add [OF assms(1) _ assms(2),
        where p = "\<lparr>pid = ''bot-'' @ fst sh, name = ''Bot'', color = snd sh, pcells = [], troops = 0\<rparr>"])
     (simp_all add: addBot_def Let_def)

lemma newId_addBot: "newId g i \<Longrightarrow> i \<noteq> ''bot-'' @ fst sh \<Longrightarrow> newId (addBot g sh) i"
  by (simp add: newId_def addBot_def Let_def dom_update)

lemma newId_addPlayer: "newId g j \<Longrightarrow> j \<noteq> i \<Longrightarrow> newId (snd (addPlayer g i nm hue)) j"
  by (simp add: newId_def addPlayer_def dom_update)

lemma length_bots_addBot: "length (bots (addBot g sh)) = Suc (length (bots g))"
  by (simp add: addBot_def Let_def)

lemma ensureBots_inv:
  assumes "worldInv g" "k \<le> length (bots g)"
    and "distinct (map (\<lambda>k. fst (r k)) [0..<MAX_PLAYERS_PER_GAME])"
    and "\<forall>j. k \<le> j \<and> j < MAX_PLAYERS_PER_GAME \<longrightarrow> newId g (''bot-'' @ fst (r j))"
  shows "worldInv (ensureBots r k g)"
  using assms
proof (induction r k g rule: ensureBots.induct)
  case (1 r k g)
  show ?case
  proof (cases "length (bots g) + length (players g) < MAX_PLAYERS_PER_GAME")
    case False
    with 1 show ?thesis by (subst ensureBots.simps) simp
  next
    case True
    with "1.prems"(2) have k: "k < MAX_PLAYERS_PER_GAME" by simp
    with "1.prems"(4) have fr: "newId g (''bot-'' @ fst (r k))" by simp
    have i1: "worldInv (addBot g (r k))" using "1.prems"(1) fr by (rule addBot_inv)
    have k1: "Suc k \<le> length (bots (addBot g (r k)))"
      using "1.prems"(2) by (simp add: length_bots_addBot)
    have inj: "\<forall>j. Suc k \<le> j \<and> j < MAX_PLAYERS_PER_GAME \<longrightarrow> fst (r j) \<noteq> fst (r k)"
    proof (intro allI impI notI)
      fix j assume j: "Suc k \<le> j \<and> j < MAX_PLAYERS_PER_GAME" and e: "fst (r j) = fst (r k)"
      from "1.prems"(3) have "inj_on (\<lambda>k. fst (r k)) (set [0..<MAX_PLAYERS_PER_GAME])"
        by (simp add: distinct_map)
      from inj_onD [OF this e] j k show False by simp
    qed
    have f1: "\<forall>j. Suc k \<le> j \<and> j < MAX_PLAYERS_PER_GAME \<longrightarrow>
                newId (addBot g (r k)) (''bot-'' @ fst (r j))"
      using "1.prems"(4) inj by (simp add: newId_addBot)
    have "worldInv (ensureBots r (Suc k) (addBot g (r k)))"
      using True i1 k1 "1.prems"(3) f1 by (rule "1.IH")
    with True show ?thesis by (subst ensureBots.simps) simp
  qed
qed

lemma join_inv:
  assumes inv: "worldInv g" and fr: "freshIds g (Join i nm hue r)"
  shows "worldInv (snd (join g i nm hue r))"
proof -
  note fr' = fr [unfolded freshIds.simps]
  from fr' have i: "i \<noteq> []" "newId g i" "\<not> prefix ''bot-'' i" by blast+
  from fr' have d: "distinct (map (\<lambda>k. fst (r k)) [0..<MAX_PLAYERS_PER_GAME])" by blast
  from fr' have la: "list_all (\<lambda>k. newId g (''bot-'' @ fst (r k))) [0..<MAX_PLAYERS_PER_GAME]"
    by blast
  define nm' where "nm' = (if nm = [] then ''Anonyme'' else nm)"
  obtain ok1 g1 where a: "addPlayer g i nm' hue = (ok1, g1)"
    by (cases "addPlayer g i nm' hue") auto
  from addPlayer_inv [OF inv i(1,2), of nm' hue] a have i1: "worldInv g1" by simp
  show ?thesis
  proof (cases ok1)
    case False
    with a i1 show ?thesis by (simp add: join_def nm'_def)
  next
    case True
    have "\<forall>j. 0 \<le> j \<and> j < MAX_PLAYERS_PER_GAME \<longrightarrow> newId g1 (''bot-'' @ fst (r j))"
    proof (intro allI impI)
      fix j assume j: "0 \<le> j \<and> j < MAX_PLAYERS_PER_GAME"
      with la have "newId g (''bot-'' @ fst (r j))" by (simp add: list_all_iff)
      moreover from i(3) have "''bot-'' @ fst (r j) \<noteq> i" by (metis prefixI)
      ultimately have "newId (snd (addPlayer g i nm' hue)) (''bot-'' @ fst (r j))"
        by (rule newId_addPlayer)
      with a show "newId g1 (''bot-'' @ fst (r j))" by simp
    qed
    with i1 d have "worldInv (ensureBots r 0 g1)" by (intro ensureBots_inv) simp_all
    with a True show ?thesis by (simp add: join_def nm'_def)
  qed
qed

lemma freeCell_idem [simp]: "freeCell (freeCell c) = freeCell c"
  by (simp add: freeCell_def)

lemma owner_freeCell [simp]: "owner (freeCell c) = None"
  by (simp add: freeCell_def)

lemma freeCells_eq:
  "freeCells cs ks = Inr cs' \<Longrightarrow>
     length cs' = length cs \<and>
     (\<forall>k<length cs. cs' ! k = (if k \<in> set ks then freeCell (cs ! k) else cs ! k))"
proof (induction ks arbitrary: cs)
  case Nil
  then show ?case by simp
next
  case (Cons i ks)
  from Cons.prems have i: "i < length cs"
    and r: "freeCells (cs[i := freeCell (cs ! i)]) ks = Inr cs'"
    by (auto split: if_splits)
  from Cons.IH [OF r] i show ?case by (auto simp: nth_list_update)
qed

lemma owned_freeCells:
  assumes "freeCells cs ks = Inr cs'"
  shows "owned cs' j = owned cs j - set ks"
  using freeCells_eq [OF assms] by (auto simp: owned_def split: if_splits)

lemma removePlayer_inv:
  assumes inv: "worldInv g" and nb: "\<not> prefix ''bot-'' i" and res: "removePlayer g i = Inr g'"
  shows "worldInv g'"
proof (cases "playerAt g i")
  case None
  with res inv show ?thesis by (simp add: removePlayer_def)
next
  case (Some x)
  then obtain a p where pl: "playerAt g i = Some (a, p)" by (cases x) auto
  with res obtain cs' where fc: "freeCells (cells g) (pcells p) = Inr cs'"
    and g': "g' = g\<lparr>cells := cs', players := AList.delete i (players g)\<rparr>"
    by (auto simp: removePlayer_def split: sum.splits)
  from inv have st: "storeOk g" and te: "territoryOk g" and bo: "botsOk g"
    by (simp_all add: worldInv_def)
  from te pl have tp: "set (pcells p) = owned (cells g) i" by (simp add: territoryOk_def)
  have ownd: "owned cs' j = owned (cells g) j - owned (cells g) i" for j
    using owned_freeCells [OF fc] tp by simp
  have "storeOk g'"
    using st unfolding storeOk_def g'
    by (auto simp: distinct_delete distinct_snd_delete set_delete)
  moreover have "territoryOk g'"
    unfolding territoryOk_def
  proof (intro allI impI)
    fix j b q assume q: "playerAt g' j = Some (b, q)"
    then have ji: "j \<noteq> i" by (auto simp: playerAt_iff g' delete_conv')
    with q have "playerAt g j = Some (b, q)" by (simp add: playerAt_iff g')
    with te have "set (pcells q) = owned (cells g) j" by (simp add: territoryOk_def)
    moreover have "owned (cells g) j \<inter> owned (cells g) i = {}" using ji by (auto simp: owned_def)
    ultimately show "set (pcells q) = owned (cells g') j" by (auto simp: g' ownd)
  qed
  moreover have "botsOk g'"
    unfolding botsOk_def
  proof
    fix b assume "b \<in> set (bots g')"
    with bo obtain j where j: "(j, b) \<in> set (players g)" "prefix ''bot-'' j"
      by (auto simp: botsOk_def g')
    with nb have "j \<noteq> i" by auto
    with j show "\<exists>j. (j, b) \<in> set (players g') \<and> prefix ''bot-'' j"
      by (auto simp: g' set_delete)
  qed
  ultimately show ?thesis by (simp add: worldInv_def)
qed

lemma disconnect_inv: "worldInv g \<Longrightarrow> disconnect g i = Inr g' \<Longrightarrow> worldInv g'"
  by (auto simp: disconnect_def split: if_splits intro: removePlayer_inv)

lemma newGame_inv: "worldInv (newGame landMask)"
  by (simp add: worldInv_def storeOk_def territoryOk_def botsOk_def playerAt_def newGame_def)

lemma exec_inv:
  assumes "worldInv g" "freshIds g c" "exec W H g c = Some (ok, g')"
  shows "worldInv g'"
proof (cases c)
  case (Join i nm hue r)
  with assms join_inv [of g i nm hue r] show ?thesis by auto
next
  case (Leave i)
  with assms show ?thesis by (auto split: sum.splits intro: disconnect_inv)
next
  case (Spawn i x y)
  with assms spawn_inv [of g W i x y] show ?thesis by (auto simp: finalState_def)
next
  case (Attack i sx sy dx dy pc)
  with assms attack_inv [of g W i sx sy dx dy pc] show ?thesis by (auto simp: finalState_def)
next
  case (Expand i x y pc)
  with assms expand_inv [of g W H i x y pc] show ?thesis by (auto simp: finalState_def)
next
  case (BuildPort i x y)
  with assms buildPort_inv [of g W H i x y] show ?thesis by auto
next
  case (BuildCity i x y)
  with assms buildCity_inv [of g W i x y] show ?thesis by auto
next
  case (Tick r)
  with assms show ?thesis by (auto split: sum.splits intro: update_inv)
qed

lemma run_inv: "worldInv g \<Longrightarrow> run freshIds W H g cs = Some g' \<Longrightarrow> worldInv g'"
proof (induction cs arbitrary: g)
  case Nil
  then show ?case by simp
next
  case (Cons c cs)
  from Cons.prems(2) obtain ok g1 where f: "freshIds g c" and e: "exec W H g c = Some (ok, g1)"
    and r: "run freshIds W H g1 cs = Some g'"
    by (auto split: if_splits option.splits)
  from Cons.prems(1) f e have "worldInv g1" by (rule exec_inv)
  then show ?case using r by (rule Cons.IH)
qed

text \<open>
  Claim C7: in every state the server reaches from the initial world by joins, leaves,
  spawns, attacks, expands, port and city builds and ticks, the territory set of every
  player of the roster holds exactly the indices of the cells whose owner is that player.
  The commands may carry any coordinates and fractions.  A leave is the \<open>close\<close> handler
  of the event stream, which never removes a bot; what is assumed is that the ids drawn
  by \<open>join\<close> and \<open>ensureBots\<close> are new (\<open>freshIds\<close>) and that the process has not been
  ended by an uncaught exception.
\<close>

theorem territory_consistent:
  assumes "run freshIds (GRID_W landMask) (GRID_H landMask) (newGame landMask) cs = Some g"
    and "playerAt g i = Some (a, p)"
  shows "set (pcells p) = {k. k < length (cells g) \<and> owner (cells g ! k) = Some i}"
proof -
  have "worldInv g" using newGame_inv assms(1) by (rule run_inv)
  with assms(2) show ?thesis by (simp add: worldInv_def territoryOk_def owned_def)
qed

text \<open>
  The demonstration run: a player joins (five bots fill the roster), spawns, builds a
  port, attacks, the bots spawn and attack over two ticks (one of them captures the water
  cell), and the player leaves.
\<close>

lemmas run_defs = GRID_W_def GRID_H_def newGame_def newCell_def demoMask_def demoRun_def
  join_def addPlayer_def MAX_PLAYERS_PER_GAME_def botDraw_def ensureBots.simps addBot_def
  spawn_def attack_def moveOk_def resolve_def update_def growPlayer_def grown_def growth_def
  maxTroops_def botAct_def demoRandom_def upt_conv_Cons target_defs expand_def buildPort_def
  buildCity_def adjacentWater_def disconnect_def removePlayer_def freeCell_def
  answer_def newId_def
  cellAt_def playerAt_def modObj_def modCell_def claimCell_def setAdd_def setDelete_def Let_def

lemma demo_fresh:
  "\<exists>g a p. run freshIds (GRID_W demoMask) (GRID_H demoMask) (newGame demoMask) demoRun = Some g
      \<and> playerAt g ''bot-m2m2m'' = Some (a, p) \<and> pcells p = [6, 3] \<and> length (cells g) = 8"
  by (simp add: run_defs)

theorem territory_consistent_witness:
  "\<exists>g a p. run freshIds (GRID_W demoMask) (GRID_H demoMask) (newGame demoMask) demoRun = Some g
      \<and> playerAt g ''bot-m2m2m'' = Some (a, p) \<and> pcells p = [6, 3]
      \<and> {k. k < length (cells g) \<and> owner (cells g ! k) = Some ''bot-m2m2m''} = {6, 3}"
proof -
  from demo_fresh obtain g a p
    where r: "run freshIds (GRID_W demoMask) (GRID_H demoMask) (newGame demoMask) demoRun = Some g"
      and pa: "playerAt g ''bot-m2m2m'' = Some (a, p)" and pc: "pcells p = [6, 3]"
    by blast
  from territory_consistent [OF r pa] pc
  have "{k. k < length (cells g) \<and> owner (cells g ! k) = Some ''bot-m2m2m''} = {6, 3}"
    by simp
  with r pa pc show ?thesis by blast
qed

section \<open>Troop pools and inherited ids\<close>

text \<open>
  The two embeddings of \<open>addPlayer\<close>, \<open>spawn\<close> and \<open>attack\<close> agree wherever no inherited
  member is looked up: the id of the call names none, and no cell is owned under such a
  name.
\<close>

lemma jsGrid_lift [simp]: "jsGrid (lift g) = cells g"
  by (simp add: lift_def)

lemma roster_lift:
  assumes "storeOk g"
  shows "jsRoster (lift g) = map (\<lambda>(i, a). (i, liftPlayer (the (heap g a)))) (players g)"
proof -
  have "\<forall>e\<in>set (players g). \<exists>p. heap g (snd e) = Some p"
    using assms by (auto simp: storeOk_def)
  then have "List.map_filter (\<lambda>(i, a). map_option (\<lambda>p. (i, liftPlayer p)) (heap g a)) es
        = map (\<lambda>(i, a). (i, liftPlayer (the (heap g a)))) es"
    if "set es \<subseteq> set (players g)" for es
    using that by (induction es) (auto simp: List.map_filter_simps)
  then show ?thesis by (simp add: lift_def)
qed

lemma map_of_lift:
  assumes "storeOk g"
  shows "map_of (jsRoster (lift g)) i = map_option (\<lambda>(a, p). liftPlayer p) (playerAt g i)"
proof -
  have ex: "\<forall>e\<in>set (players g). \<exists>p. heap g (snd e) = Some p"
    using assms by (auto simp: storeOk_def)
  have "map_of (map (\<lambda>(i, a). (i, liftPlayer (the (heap g a)))) es) i
      = map_option (\<lambda>a. liftPlayer (the (heap g a))) (map_of es i)" for es
    by (induction es) auto
  then have "map_of (jsRoster (lift g)) i = map_option (\<lambda>a. liftPlayer (the (heap g a))) (map_of (players g) i)"
    by (simp add: roster_lift [OF assms])
  also have "\<dots> = map_option (\<lambda>(a, p). liftPlayer p) (playerAt g i)"
    using ex by (auto simp: playerAt_def split: option.splits dest!: map_of_SomeD)
  finally show ?thesis .
qed

lemma playersGet_lift:
  assumes "storeOk g" "i \<notin> set prototypeNames"
  shows "playersGet (lift g) i = (case playerAt g i of None \<Rightarrow> Undefined | Some (a, p) \<Rightarrow> Own (liftPlayer p))"
  using assms(2) by (simp add: playersGet_def map_of_lift [OF assms(1)] split: option.splits)

lemma lift_modCell [simp]: "lift (modCell k f g) = modGrid k f (lift g)"
  by (simp add: lift_def modGrid_def modCell_def)

lemma lift_modObj:
  assumes "storeOk g" "playerAt g i = Some (a, p)" "\<And>q. liftPlayer (f q) = f' (liftPlayer q)"
    "\<And>q. pid (f q) = pid q"
  shows "lift (modObj a f g) = modPlayer i f' (lift g)"
proof -
  have so: "storeOk (modObj a f g)"
    using assms(1) by (rule storeOk_modObj) (simp add: assms(4))
  have d: "distinct (map snd (players g))" "distinct (map fst (players g))"
    using assms(1) by (auto simp: storeOk_def)
  have ia: "(i, a) \<in> set (players g)" using assms(2) by (rule playerAt_mem)
  have key: "(j = i) = (b = a)" if "(j, b) \<in> set (players g)" for j b
  proof
    assume "j = i"
    with that ia d(2) show "b = a" by (auto dest: eq_key_imp_eq_value)
  next
    assume "b = a"
    with that ia d(1) show "j = i"
      by (metis (no_types, lifting) distinct_map inj_onD snd_conv fst_conv)
  qed
  have ex: "\<forall>e\<in>set (players g). \<exists>p. heap g (snd e) = Some p"
    using assms(1) by (auto simp: storeOk_def)
  have pt: "(case e of (j, b) \<Rightarrow> (j, liftPlayer (the (heap (modObj a f g) b))))
      = (case (case e of (j, b) \<Rightarrow> (j, liftPlayer (the (heap g b)))) of
           (k, p) \<Rightarrow> (k, if k = i then f' p else p))"
    if "e \<in> set (players g)" for e
  proof -
    obtain j b where e: "e = (j, b)" by (cases e)
    with that have m: "(j, b) \<in> set (players g)" by simp
    from m ex obtain q where q: "heap g b = Some q" by fastforce
    show ?thesis
      using key [OF m] q by (cases "b = a") (simp_all add: e heap_modObj assms(3))
  qed
  have eq: "map (\<lambda>(j, b). (j, liftPlayer (the (heap (modObj a f g) b)))) (players g)
      = map (\<lambda>(k, p). (k, if k = i then f' p else p))
          (map (\<lambda>(j, b). (j, liftPlayer (the (heap g b)))) (players g))"
    unfolding map_map by (rule map_cong) (simp_all add: pt)
  have r1: "jsRoster (lift (modObj a f g))
      = map (\<lambda>(j, b). (j, liftPlayer (the (heap (modObj a f g) b)))) (players g)"
    using roster_lift [OF so] by simp
  have r2: "jsRoster (modPlayer i f' (lift g))
      = map (\<lambda>(k, p). (k, if k = i then f' p else p))
          (map (\<lambda>(j, b). (j, liftPlayer (the (heap g b)))) (players g))"
    by (simp add: modPlayer_def roster_lift [OF assms(1)])
  show ?thesis
    by (rule jsGame.equality) (simp_all add: r1 r2 eq, simp_all add: modPlayer_def)
qed


lemma liftOutcome_simps [simp]:
  "liftOutcome (Inl (e, g)) = Inl (e, lift g)"
  "liftOutcome (Inr (ok, g)) = Inr (ok, lift g)"
  by (simp_all add: liftOutcome_def)

lemma spawn_agrees:
  assumes "storeOk g" "i \<notin> set prototypeNames"
  shows "spawnJS W (lift g) i x y = liftOutcome (spawn W g i x y)"
proof (cases "cellAt (cells g) (y * int W + x)")
  case None
  then show ?thesis by (simp add: spawn_def spawnJS_def)
next
  case (Some c)
  show ?thesis
  proof (cases "\<not> land c \<or> \<not> falsy (owner c)")
    case True
    with Some show ?thesis by (simp add: spawn_def spawnJS_def)
  next
    case False
    define g1 where "g1 = modCell (nat (y * int W + x)) (\<lambda>c. (claimCell i c)\<lparr>ctroops := 0\<rparr>) g"
    have so: "storeOk g1" using assms(1) by (simp add: g1_def)
    have l1: "lift g1 = modGrid (nat (y * int W + x)) (\<lambda>c. (claimCell i c)\<lparr>ctroops := 0\<rparr>) (lift g)"
      by (simp add: g1_def)
    show ?thesis
    proof (cases "playerAt g1 i")
      case None
      then have "playersGet (lift g1) i = Undefined"
        by (simp add: playersGet_lift [OF so assms(2)])
      with None Some False show ?thesis
        by (simp add: spawn_def spawnJS_def Let_def g1_def [symmetric] l1 [symmetric])
    next
      case (Some ap)
      obtain a p where ap: "ap = (a, p)" by (cases ap)
      with Some have pa: "playerAt g1 i = Some (a, p)" by simp
      then have pg: "playersGet (lift g1) i = Own (liftPlayer p)"
        by (simp add: playersGet_lift [OF so assms(2)])
      define g2 where "g2 = modObj a (\<lambda>p. p\<lparr>pcells := setAdd (nat (y * int W + x)) (pcells p)\<rparr>) g1"
      have l2: "lift g2 = modPlayer i (\<lambda>p. p\<lparr>jsCells := setAdd (nat (y * int W + x)) (jsCells p)\<rparr>) (lift g1)"
        unfolding g2_def by (rule lift_modObj [OF so pa]) (simp_all add: liftPlayer_def)
      have so2: "storeOk g2" unfolding g2_def using so by (rule storeOk_modObj) simp
      have pa2: "playerAt g2 i = Some (a, p\<lparr>pcells := setAdd (nat (y * int W + x)) (pcells p)\<rparr>)"
        by (simp add: g2_def playerAt_modObj pa)
      have l3: "lift (modObj a (\<lambda>p. p\<lparr>troops := troops p + 10\<rparr>) g2)
          = modPlayer i (\<lambda>p. p\<lparr>jsTroops := plusN (jsTroops p) (Num 10)\<rparr>) (lift g2)"
        by (rule lift_modObj [OF so2 pa2]) (simp_all add: liftPlayer_def)
      from \<open>cellAt (cells g) (y * int W + x) = Some c\<close> False pa pg show ?thesis
        by (simp add: spawn_def spawnJS_def Let_def g1_def [symmetric] l1 [symmetric]
            g2_def [symmetric] l3 l2)
    qed
  qed
qed


lemma attack_agrees:
  assumes so: "storeOk g" and ni: "i \<notin> set prototypeNames"
    and no: "\<forall>c\<in>set (cells g). \<forall>d. owner c = Some d \<longrightarrow> d \<notin> set prototypeNames"
  shows "attackJS W (lift g) i srcX srcY dstX dstY percent
           = liftOutcome (attack W g i srcX srcY dstX dstY percent)"
proof (cases "playerAt g i")
  case None
  then have "playersGet (lift g) i = Undefined" by (simp add: playersGet_lift [OF so ni])
  with None show ?thesis by (simp add: attack_def attackJS_def)
next
  case (Some ap)
  obtain a pl where "ap = (a, pl)" by (cases ap)
  with Some have pa: "playerAt g i = Some (a, pl)" by simp
  then have pg: "playersGet (lift g) i = Own (liftPlayer pl)"
    by (simp add: playersGet_lift [OF so ni])
  define ts where "ts = \<lfloor>of_int (troops pl) * percent\<rfloor>"
  let ?k = "nat (dstY * int W + dstX)"
  have fl: "floorTimes (jsTroops (liftPlayer pl)) percent = Num ts"
    by (simp add: ts_def liftPlayer_def)
  have tl: "(rat_of_int (troops pl) * percent < 1) = (ts < 1)"
    by (simp add: ts_def)
  define g1 where "g1 = modObj a (\<lambda>p. p\<lparr>troops := troops p - ts\<rparr>) g"
  have l1: "lift g1 = modPlayer i (\<lambda>p. p\<lparr>jsTroops := minusN (jsTroops p) (Num ts)\<rparr>) (lift g)"
    unfolding g1_def by (rule lift_modObj [OF so pa]) (simp_all add: liftPlayer_def)
  have so1: "storeOk g1" unfolding g1_def using so by (rule storeOk_modObj) simp
  have pa1: "playerAt g1 i = Some (a, pl\<lparr>troops := troops pl - ts\<rparr>)"
    by (simp add: g1_def playerAt_modObj pa)
  have c1: "cells g1 = cells g" by (simp add: g1_def)
  show ?thesis
  proof (cases "cellAt (cells g) (srcY * int W + srcX)")
    case None
    with pa pg show ?thesis by (simp add: attack_def attackJS_def)
  next
    case src: (Some srcCell)
    show ?thesis
    proof (cases "owner srcCell \<noteq> Some i
        \<or> \<not> moveOk W (cells g) srcX srcY dstX dstY srcCell (cellAt (cells g) (dstY * int W + dstX))
        \<or> ts < 1")
      case True
      with src pa pg fl show ?thesis
        by (auto simp: attack_def attackJS_def Let_def tl)
    next
      case go: False
      have A: "attack W g i srcX srcY dstX dstY percent = resolve g1 i a (dstY * int W + dstX) ts"
        using src pa go by (simp add: attack_def Let_def tl ts_def [symmetric] g1_def)
      show ?thesis
      proof (cases "cellAt (cells g) (dstY * int W + dstX)")
        case None
        with src pa pg fl go show ?thesis
          by (simp add: A attackJS_def resolve_def Let_def c1 l1)
      next
        case dst: (Some dc)
        show ?thesis
        proof (cases "falsy (owner dc)")
          case True
          have pa2: "playerAt (modCell ?k (claimCell i) g1) i
              = Some (a, pl\<lparr>troops := troops pl - ts\<rparr>)"
            by (simp add: pa1)
          have so2: "storeOk (modCell ?k (claimCell i) g1)" using so1 by simp
          have "lift (modObj a (\<lambda>p. p\<lparr>pcells := setAdd ?k (pcells p)\<rparr>)
                        (modCell ?k (claimCell i) g1))
              = modPlayer i (\<lambda>p. p\<lparr>jsCells := setAdd ?k (jsCells p)\<rparr>)
                  (lift (modCell ?k (claimCell i) g1))"
            by (rule lift_modObj [OF so2 pa2]) (simp_all add: liftPlayer_def)
          with src dst pa pg fl go True show ?thesis
            by (simp add: A attackJS_def resolve_def Let_def c1 l1)
        next
          case nf: False
          show ?thesis
          proof (cases "owner dc = Some i")
            case True
            with src dst pa pg fl go nf show ?thesis
              by (simp add: A attackJS_def resolve_def Let_def c1 l1)
          next
            case ni': False
            from nf obtain d where d: "owner dc = Some d" by (cases "owner dc") auto
            from dst have "dc \<in> set (cells g)"
              by (auto simp: cellAt_def split: if_splits)
            with no d have dn: "d \<notin> set prototypeNames" by blast
            show ?thesis
            proof (cases "playerAt g1 d")
              case None
              then have "playersGet (lift g1) d = Undefined"
                by (simp add: playersGet_lift [OF so1 dn])
              with None src dst pa pg fl go nf ni' d show ?thesis
                by (simp add: A attackJS_def resolve_def Let_def c1 l1 [symmetric])
            next
              case (Some dp)
              obtain da df where "dp = (da, df)" by (cases dp)
              with Some have pd: "playerAt g1 d = Some (da, df)" by simp
              then have pgd: "playersGet (lift g1) d = Own (liftPlayer df)"
                by (simp add: playersGet_lift [OF so1 dn])
              have cmp: "lessN (jsTroops (liftPlayer df)) (Num ts) = (ts > troops df)"
                by (simp add: liftPlayer_def)
              show ?thesis
              proof (cases "ts > troops df")
                case True
                define h1 where "h1 = modObj da (\<lambda>p. p\<lparr>troops := 0\<rparr>) g1"
                have lh1: "lift h1 = modPlayer d (\<lambda>p. p\<lparr>jsTroops := Num 0\<rparr>) (lift g1)"
                  unfolding h1_def by (rule lift_modObj [OF so1 pd]) (simp_all add: liftPlayer_def)
                have soh1: "storeOk h1" unfolding h1_def using so1 by (rule storeOk_modObj) simp
                have pdh1: "playerAt h1 d = Some (da, df\<lparr>troops := 0\<rparr>)"
                  by (simp add: h1_def playerAt_modObj pd)
                define h2 where "h2 = modObj da (\<lambda>p. p\<lparr>pcells := setDelete ?k (pcells p)\<rparr>) h1"
                have lh2: "lift h2
                    = modPlayer d (\<lambda>p. p\<lparr>jsCells := setDelete ?k (jsCells p)\<rparr>) (lift h1)"
                  unfolding h2_def
                  by (rule lift_modObj [OF soh1 pdh1]) (simp_all add: liftPlayer_def)
                have soh2: "storeOk h2"
                  unfolding h2_def using soh1 by (rule storeOk_modObj) simp
                define h3 where "h3 = modCell ?k (claimCell i) h2"
                have lh3: "lift h3 = modGrid ?k (claimCell i) (lift h2)" by (simp add: h3_def)
                have soh3: "storeOk h3" using soh2 by (simp add: h3_def)
                from pa1 obtain q where pah3: "playerAt h3 i = Some (a, q)"
                  by (auto simp: h3_def h2_def h1_def playerAt_modObj)
                have lh4: "lift (modObj a (\<lambda>p. p\<lparr>pcells := setAdd ?k (pcells p)\<rparr>) h3)
                    = modPlayer i (\<lambda>p. p\<lparr>jsCells := setAdd ?k (jsCells p)\<rparr>) (lift h3)"
                  by (rule lift_modObj [OF soh3 pah3]) (simp_all add: liftPlayer_def)
                have R: "resolve g1 i a (dstY * int W + dstX) ts
                    = Inr (True, modObj a (\<lambda>p. p\<lparr>pcells := setAdd ?k (pcells p)\<rparr>) h3)"
                  using dst nf ni' d pd True
                  by (simp add: resolve_def c1 h3_def h2_def h1_def)
                have J: "attackJS W (lift g) i srcX srcY dstX dstY percent
                    = Inr (True, modPlayer i (\<lambda>p. p\<lparr>jsCells := setAdd ?k (jsCells p)\<rparr>)
                        (modGrid ?k (claimCell i)
                          (modPlayer d (\<lambda>p. p\<lparr>jsCells := setDelete ?k (jsCells p)\<rparr>)
                            (modPlayer d (\<lambda>p. p\<lparr>jsTroops := Num 0\<rparr>) (lift g1)))))"
                  using src dst pa pg fl go nf ni' d pgd cmp True
                  by (simp add: attackJS_def Let_def l1 [symmetric])
                show ?thesis by (simp add: A R J lh4 lh3 lh2 lh1)
              next
                case le: False
                have "lift (modObj da (\<lambda>p. p\<lparr>troops := troops p - ts\<rparr>) g1)
                    = modPlayer d (\<lambda>p. p\<lparr>jsTroops := minusN (jsTroops p) (Num ts)\<rparr>) (lift g1)"
                  by (rule lift_modObj [OF so1 pd]) (simp_all add: liftPlayer_def)
                with src dst pa pg fl go nf ni' d pd pgd cmp le
                show ?thesis
                  by (simp add: A attackJS_def resolve_def Let_def c1 l1 [symmetric])
              qed
            qed
          qed
        qed
      qed
    qed
  qed
qed


lemma addPlayer_agrees:
  assumes "storeOk g"
  shows "addPlayerJS (lift g) i nm hue = map_prod id lift (addPlayer g i nm hue)"
proof -
  let ?n = "nextRef g"
  let ?new = "\<lparr>pid = i, name = nm, color = hue, pcells = [], troops = 0\<rparr>"
  let ?F = "\<lambda>(j, b). map_option (\<lambda>p. (j, liftPlayer p)) (heap g b)"
  let ?F' = "\<lambda>(j, b). map_option (\<lambda>p. (j, liftPlayer p)) (((heap g)(?n \<mapsto> ?new)) b)"
  have ok: "\<forall>e\<in>set (players g). snd e < ?n \<and> (\<exists>p. heap g (snd e) = Some p)"
    using assms by (auto simp: storeOk_def)
  have same: "List.map_filter ?F' es = List.map_filter ?F es"
    if "\<forall>e\<in>set es. snd e < ?n" for es
    using that by (induction es) (auto simp: List.map_filter_simps split: option.splits)
  have upd: "List.map_filter ?F' (AList.update i ?n es)
      = AList.update i (liftPlayer ?new) (List.map_filter ?F es)"
    if "\<forall>e\<in>set es. snd e < ?n \<and> (\<exists>p. heap g (snd e) = Some p)" for es
    using that
  proof (induction es)
    case Nil
    show ?case by (simp add: List.map_filter_simps)
  next
    case (Cons e es)
    obtain j b where e: "e = (j, b)" by (cases e)
    from Cons.prems e obtain p where p: "heap g b = Some p" "b < ?n" by auto
    show ?case
    proof (cases "j = i")
      case True
      have "List.map_filter ?F' es = List.map_filter ?F es"
        using Cons.prems by (intro same) simp
      with True p show ?thesis by (simp add: e List.map_filter_simps)
    next
      case False
      from Cons have "List.map_filter ?F' (AList.update i ?n es)
          = AList.update i (liftPlayer ?new) (List.map_filter ?F es)" by simp
      with False p show ?thesis by (simp add: e List.map_filter_simps)
    qed
  qed
  have len: "length (jsRoster (lift g)) = length (players g)"
    by (simp add: roster_lift [OF assms])
  have r: "jsRoster (lift g) = List.map_filter ?F (players g)" by (simp add: lift_def)
  have new: "\<lparr>jsId = i, jsName = nm, jsColor = hue, jsCells = [], jsTroops = Num 0\<rparr>
      = liftPlayer ?new"
    by (simp add: liftPlayer_def)
  show ?thesis
  proof (cases "MAX_PLAYERS_PER_GAME \<le> length (players g)")
    case True
    then show ?thesis by (simp add: addPlayer_def addPlayerJS_def len)
  next
    case False
    have "lift g\<lparr>jsRoster := AList.update i (liftPlayer ?new) (jsRoster (lift g))\<rparr>
        = lift (g\<lparr>heap := (heap g)(?n \<mapsto> ?new), players := AList.update i ?n (players g),
                   nextRef := Suc ?n\<rparr>)"
      using upd [of "players g"] ok by (simp add: r) (simp add: lift_def)
    with False show ?thesis
      by (simp add: addPlayer_def addPlayerJS_def len new del: jsGame.simps)
  qed
qed

lemmas js_defs = newGameJS_def addPlayerJS_def spawnJS_def attackJS_def playersGet_def
  modPlayer_def modGrid_def poolJS_def prototypeNames_def newGame_def newCell_def GRID_W_def
  GRID_H_def MAX_PLAYERS_PER_GAME_def moveOk_def cellAt_def claimCell_def setAdd_def Let_def

text \<open>
  Claim C8 says that no operation with in-bounds coordinates and a fraction in \<open>(0,1]\<close>
  takes a troop pool out of the numbers \<open>\<ge> 0\<close>.  \<open>attack\<close> means to refuse an id that is
  not a player (\<open>!player\<close>, line 100), but \<open>this.players['constructor']\<close> is the inherited
  function \<open>Object\<close>: it is truthy and has no \<open>troops\<close>, so \<open>toSend\<close> is \<open>NaN\<close>, neither
  \<open>toSend < 1\<close> nor \<open>toSend > defender.troops\<close> holds, and line 152 subtracts \<open>NaN\<close> from
  the defender's pool.  On a 2 by 1 land strip: \<open>p1\<close> is added and spawns at \<open>(0,0)\<close>,
  which gives it a pool of 10; \<open>spawn\<close> with the id \<open>constructor\<close> at \<open>(1,0)\<close> claims the
  cell and then throws; \<open>attack\<close> with the id \<open>constructor\<close> from \<open>(1,0)\<close> to \<open>(0,0)\<close> with
  the fraction \<open>1/2\<close> returns \<open>true\<close> and leaves the pool of \<open>p1\<close> at \<open>NaN\<close>.
\<close>

theorem attack_inherited_id_nan:
  "playersGet (newGameJS [[1, 1]]) ''constructor'' = Inherited
   \<and> (case spawnJS 2 (snd (addPlayerJS (newGameJS [[1, 1]]) ''p1'' ''Ann'' 0)) ''p1'' 0 0 of
        Inl e \<Rightarrow> False
      | Inr (ok1, g1) \<Rightarrow> ok1 \<and> poolJS g1 ''p1'' = Some (Num 10) \<and>
          (case spawnJS 2 g1 ''constructor'' 1 0 of
             Inr r \<Rightarrow> False
           | Inl (e, g2) \<Rightarrow>
               map owner (jsGrid g2) = [Some ''p1'', Some ''constructor''] \<and>
               poolJS g2 ''p1'' = Some (Num 10) \<and>
               (case attackJS 2 g2 ''constructor'' 1 0 0 0 (1 / 2) of
                  Inl e \<Rightarrow> False
                | Inr (ok3, g3) \<Rightarrow> ok3 \<and> poolJS g3 ''p1'' = Some NaN
                    \<and> jsGrid g3 = jsGrid g2)))"
  by (simp add: js_defs)

theorem attack_inherited_id_nan_witness:
  "playersGet (newGameJS [[1, 1]]) ''constructor'' = Inherited"
  using attack_inherited_id_nan by (rule conjunct1)

end
